theory Spec2Isabelle
  imports Complex_Main
begin

section \<open>Numbers\<close>

text \<open>
  The engine computes on JavaScript numbers. They are modelled as real numbers: every
  arithmetic operation is exact, and the constant \<open>0.01\<close> is the real 1/100. The
  rounding of IEEE doubles is outside this model; \<open>Math.round\<close> rounds half up.
\<close>

definition js_round :: "real \<Rightarrow> int" where
  "js_round x = \<lfloor>x + 1 / 2\<rfloor>"

definition round_cents :: "real \<Rightarrow> real" where
  \<comment> \<open>\<open>Math.round(x * 100) / 100\<close>\<close>
  "round_cents x = real_of_int (js_round (x * 100)) / 100"

lemma nat_less_ceiling: "real d < x \<Longrightarrow> d < nat \<lceil>x\<rceil>"
proof -
  assume "real d < x"
  then have "real d < real_of_int \<lceil>x\<rceil>"
    using le_of_int_ceiling [of x] by linarith
  then have "int d < \<lceil>x\<rceil>" by linarith
  then show ?thesis by linarith
qed

lemma nat_le_floor: "real y \<le> x \<Longrightarrow> y \<le> nat \<lfloor>x\<rfloor>"
proof -
  assume "real y \<le> x"
  then have "int y \<le> \<lfloor>x\<rfloor>" by (simp add: le_floor_iff)
  then show ?thesis by linarith
qed

section \<open>Debt payoff simulation (calculatePayoff)\<close>

text \<open>
  The fields of the interfaces keep their names behind a prefix for the record they
  belong to (\<open>d_\<close> for \<open>DebtInput\<close>, \<open>e_\<close> for an entry of
  \<open>PayoffMonth['debts']\<close>, \<open>m_\<close> for \<open>PayoffMonth\<close>, \<open>p_\<close> for an entry
  of \<open>debtPayoffOrder\<close>, \<open>r_\<close> for \<open>PayoffResult\<close>). The local variable
  \<open>sorted\<close> of the source is called \<open>srt\<close>.
\<close>

record DebtInput =
  d_id :: string
  d_name :: string
  d_balance :: real
  d_rate :: real
  d_minimum :: real

record PayoffDebt =
  e_id :: string
  e_name :: string
  e_balance :: real
  e_payment :: real
  e_interest :: real
  e_principal :: real

record PayoffMonth =
  m_month :: nat
  m_debts :: "PayoffDebt list"
  m_totalBalance :: real
  m_totalPayment :: real
  m_totalInterest :: real

record PayoffOrderEntry =
  p_id :: string
  p_name :: string
  p_payoffMonth :: nat

datatype Strategy = Avalanche | Snowball

record PayoffResult =
  r_strategy :: Strategy
  r_months :: nat
  r_totalPaid :: real
  r_totalInterest :: real
  r_schedule :: "PayoffMonth list"
  r_debtPayoffOrder :: "PayoffOrderEntry list"

text \<open>
  \<open>[...debts].sort(cmp)\<close> is a stable sort; on numbers the comparators
  \<open>b.rate - a.rate\<close> and \<open>a.balance - b.balance\<close> order by descending rate and
  by ascending balance. \<open>sort_key\<close> is a stable insertion sort.
\<close>

definition sort_debts :: "Strategy \<Rightarrow> DebtInput list \<Rightarrow> DebtInput list" where
  "sort_debts strategy debts =
     (case strategy of
        Avalanche \<Rightarrow> sort_key (\<lambda>d. - d_rate d) debts
      | Snowball \<Rightarrow> sort_key d_balance debts)"

text \<open>
  The working balances \<open>const balances: Record<string, number> = {}\<close> are a plain
  object. Its own properties are a function from ids to numbers together with the list
  of its keys. One key is never an own property: \<open>__proto__\<close> is an accessor of
  \<open>Object.prototype\<close>, whose setter ignores a number and whose getter returns the
  prototype object. So \<open>balances[k] = v\<close> does nothing for that key
  (\<open>set_balance\<close>), and for that key both \<open>balances[k]! > 0.01\<close> and
  \<open>balances[k]! <= 0.01\<close> are false, as comparisons with \<open>NaN\<close>
  (\<open>above_cent\<close>, \<open>at_most_cent\<close>). Every other key that is read has been
  written before.
\<close>

type_synonym Balances = "string \<Rightarrow> real"

definition proto_key :: string where
  "proto_key = ''__proto__''"

definition set_balance :: "Balances \<Rightarrow> string \<Rightarrow> real \<Rightarrow> Balances" where
  "set_balance bal k v = (if k = proto_key then bal else bal(k := v))"

definition above_cent :: "Balances \<Rightarrow> string \<Rightarrow> bool" where
  "above_cent bal k = (k \<noteq> proto_key \<and> bal k > 0.01)"

definition at_most_cent :: "Balances \<Rightarrow> string \<Rightarrow> bool" where
  "at_most_cent bal k = (k \<noteq> proto_key \<and> bal k \<le> 0.01)"

fun init_balances :: "DebtInput list \<Rightarrow> Balances \<Rightarrow> Balances" where
  "init_balances [] bal = bal"
| "init_balances (d # ds) bal = init_balances ds (set_balance bal (d_id d) (d_balance d))"

definition balance_keys :: "DebtInput list \<Rightarrow> string list" where
  "balance_keys srt = remdups (filter (\<lambda>k. k \<noteq> proto_key) (map d_id srt))"

record LoopState =
  s_balances :: Balances
  s_schedule :: "PayoffMonth list"
  s_payoffOrder :: "PayoffOrderEntry list"
  s_totalInterestPaid :: real
  s_totalPaid :: real
  s_month :: nat

definition maxMonths :: nat where
  "maxMonths = 360"

definition remaining_debts :: "DebtInput list \<Rightarrow> Balances \<Rightarrow> DebtInput list" where
  "remaining_debts srt bal = filter (\<lambda>d. above_cent bal (d_id d)) srt"

definition freedMinimums :: "DebtInput list \<Rightarrow> Balances \<Rightarrow> real" where
  "freedMinimums srt bal =
     foldl (\<lambda>s d. s + d_minimum d) 0 (filter (\<lambda>d. at_most_cent bal (d_id d)) srt)"

text \<open>
  First pass: interest and minimum payment of one remaining debt. The pass runs over
  the remaining debts only, whose balance is a number.
\<close>

definition first_pass :: "Balances \<Rightarrow> DebtInput \<Rightarrow> PayoffDebt" where
  "first_pass bal d =
     (let b = bal (d_id d);
          monthlyRate = d_rate d / 100 / 12;
          interest = b * monthlyRate;
          minPayment = min (d_minimum d) (b + interest)
      in \<lparr>e_id = d_id d, e_name = d_name d, e_balance = b, e_payment = minPayment,
          e_interest = interest, e_principal = minPayment - interest\<rparr>)"

text \<open>
  \<open>entry.payment += maxExtra; entry.principal += maxExtra\<close> on the object that
  \<open>monthDebts.find\<close> returned: the first entry with that id is updated in place.
\<close>

fun add_extra :: "string \<Rightarrow> real \<Rightarrow> PayoffDebt list \<Rightarrow> PayoffDebt list" where
  "add_extra i x [] = []"
| "add_extra i x (m # ms) =
     (if e_id m = i
      then m\<lparr>e_payment := e_payment m + x, e_principal := e_principal m + x\<rparr> # ms
      else m # add_extra i x ms)"

text \<open>
  Second pass over the debts in their sorted order. The loop leaves at the first debt
  that has a balance above 0.01 and an entry (\<open>break\<close>); the decrement of
  \<open>extraBudget\<close> is not read afterwards.
\<close>

fun second_pass ::
  "DebtInput list \<Rightarrow> Balances \<Rightarrow> real \<Rightarrow> PayoffDebt list \<Rightarrow> PayoffDebt list" where
  "second_pass [] bal extraBudget monthDebts = monthDebts"
| "second_pass (d # ds) bal extraBudget monthDebts =
     (if at_most_cent bal (d_id d) \<or> extraBudget \<le> 0
      then second_pass ds bal extraBudget monthDebts
      else case find (\<lambda>m. e_id m = d_id d) monthDebts of
             None \<Rightarrow> second_pass ds bal extraBudget monthDebts
           | Some entry \<Rightarrow>
               (let maxExtra = min extraBudget
                      (e_balance entry + e_interest entry - e_payment entry + 0.01)
                in if maxExtra > 0 then add_extra (d_id d) maxExtra monthDebts
                   else monthDebts))"

text \<open>
  Third pass: apply the payments to the working balances, in the order of
  \<open>monthDebts\<close>, writing the new balance back into each entry
  (\<open>entry.balance = balances[entry.id]!\<close>) and recording the debts that were just
  paid off. The entries come from the remaining debts, so none has the id
  \<open>__proto__\<close> and what is read back is the number just written.
\<close>

record ApplyState =
  a_balances :: Balances
  a_payoffOrder :: "PayoffOrderEntry list"
  a_totalPayment :: real
  a_totalInterest :: real
  a_debts :: "PayoffDebt list"

definition apply_entry :: "nat \<Rightarrow> ApplyState \<Rightarrow> PayoffDebt \<Rightarrow> ApplyState" where
  "apply_entry month a entry =
     (let newBal = max 0 (e_balance entry + e_interest entry - e_payment entry);
          bal' = set_balance (a_balances a) (e_id entry) newBal;
          entry' = entry\<lparr>e_balance := bal' (e_id entry)\<rparr>;
          order' =
            (if at_most_cent bal' (e_id entry)
                \<and> find (\<lambda>p. p_id p = e_id entry) (a_payoffOrder a) = None
             then a_payoffOrder a @
                  [\<lparr>p_id = e_id entry, p_name = e_name entry, p_payoffMonth = month\<rparr>]
             else a_payoffOrder a)
      in \<lparr>a_balances = bal', a_payoffOrder = order',
          a_totalPayment = a_totalPayment a + e_payment entry,
          a_totalInterest = a_totalInterest a + e_interest entry,
          a_debts = a_debts a @ [entry']\<rparr>)"

definition apply_payments ::
  "nat \<Rightarrow> Balances \<Rightarrow> PayoffOrderEntry list \<Rightarrow> PayoffDebt list \<Rightarrow> ApplyState" where
  "apply_payments month bal order monthDebts =
     foldl (apply_entry month)
       \<lparr>a_balances = bal, a_payoffOrder = order, a_totalPayment = 0,
        a_totalInterest = 0, a_debts = []\<rparr> monthDebts"

definition total_balance :: "DebtInput list \<Rightarrow> Balances \<Rightarrow> real" where
  \<comment> \<open>\<open>Object.values(balances).reduce((s, b) => s + b, 0)\<close>\<close>
  "total_balance srt bal = foldl (\<lambda>s k. s + bal k) 0 (balance_keys srt)"

text \<open>One iteration of the \<open>while\<close> loop, after the \<open>break\<close> test.\<close>

definition payoff_month :: "DebtInput list \<Rightarrow> real \<Rightarrow> LoopState \<Rightarrow> LoopState" where
  "payoff_month srt extraMonthly st =
     (let bal = s_balances st;
          remaining = remaining_debts srt bal;
          month = s_month st + 1;
          extraBudget = extraMonthly + freedMinimums srt bal;
          monthDebts = second_pass srt bal extraBudget (map (first_pass bal) remaining);
          a = apply_payments month bal (s_payoffOrder st) monthDebts
      in \<lparr>s_balances = a_balances a,
          s_schedule = s_schedule st @
            [\<lparr>m_month = month, m_debts = a_debts a,
              m_totalBalance = total_balance srt (a_balances a),
              m_totalPayment = a_totalPayment a,
              m_totalInterest = a_totalInterest a\<rparr>],
          s_payoffOrder = a_payoffOrder a,
          s_totalInterestPaid = s_totalInterestPaid st + a_totalInterest a,
          s_totalPaid = s_totalPaid st + a_totalPayment a,
          s_month = month\<rparr>)"

lemma s_month_payoff_month: "s_month (payoff_month srt extraMonthly st) = s_month st + 1"
  by (simp add: payoff_month_def Let_def)

function payoff_loop :: "DebtInput list \<Rightarrow> real \<Rightarrow> LoopState \<Rightarrow> LoopState" where
  "payoff_loop srt extraMonthly st =
     (if s_month st < maxMonths
      then (if remaining_debts srt (s_balances st) = [] then st
            else payoff_loop srt extraMonthly (payoff_month srt extraMonthly st))
      else st)"
  by pat_completeness auto
termination
  by (relation "measure (\<lambda>(srt, extraMonthly, st). maxMonths - s_month st)")
     (auto simp: s_month_payoff_month)

declare payoff_loop.simps [simp del]

definition init_state :: "DebtInput list \<Rightarrow> LoopState" where
  "init_state srt =
     \<lparr>s_balances = init_balances srt (\<lambda>k. 0), s_schedule = [], s_payoffOrder = [],
      s_totalInterestPaid = 0, s_totalPaid = 0, s_month = 0\<rparr>"

definition calculatePayoff :: "DebtInput list \<Rightarrow> Strategy \<Rightarrow> real \<Rightarrow> PayoffResult" where
  "calculatePayoff debts strategy extraMonthly =
     (let srt = sort_debts strategy debts;
          st = payoff_loop srt extraMonthly (init_state srt)
      in \<lparr>r_strategy = strategy, r_months = s_month st, r_totalPaid = s_totalPaid st,
          r_totalInterest = s_totalInterestPaid st, r_schedule = s_schedule st,
          r_debtPayoffOrder = s_payoffOrder st\<rparr>)"

record Comparison =
  cmp_avalanche :: PayoffResult
  cmp_snowball :: PayoffResult
  interestSaved :: real
  monthsSaved :: int

definition compareStrategies :: "DebtInput list \<Rightarrow> real \<Rightarrow> Comparison" where
  "compareStrategies debts extraMonthly =
     (let avalanche = calculatePayoff debts Avalanche extraMonthly;
          snowball = calculatePayoff debts Snowball extraMonthly
      in \<lparr>cmp_avalanche = avalanche, cmp_snowball = snowball,
          interestSaved = r_totalInterest snowball - r_totalInterest avalanche,
          monthsSaved = int (r_months snowball) - int (r_months avalanche)\<rparr>)"

section \<open>Financial health score (calculateHealthScore)\<close>

record HealthScoreInput =
  monthlyIncome :: real
  monthlyExpenses :: real
  totalDebt :: real
  totalAssets :: real
  totalInvestments :: real
  emergencyFundBalance :: real
  creditUtilization :: real

record ScoreComponent =
  c_score :: real
  c_value :: real
  c_label :: string

record HealthScoreResult =
  overallScore :: int
  grade :: string
  savingsRateC :: ScoreComponent
  debtToIncomeC :: ScoreComponent
  emergencyFundC :: ScoreComponent
  investmentRateC :: ScoreComponent
  creditUtilizationC :: ScoreComponent
  recommendations :: "string list"

text \<open>
  The printing of numbers (\<open>Number.prototype.toFixed\<close> and the conversion of a
  number inside a template string) belongs to the JavaScript runtime and is a parameter
  of the model.
\<close>

record NumberFormat =
  toFixed :: "nat \<Rightarrow> real \<Rightarrow> string"
  numToString :: "real \<Rightarrow> string"

text \<open>
  A JavaScript division never throws, but a zero divisor gives \<open>NaN\<close> or an
  infinity. The model has no such values: \<open>js_div\<close> is \<open>None\<close> there,
  and a result built from it is \<open>None\<close>.
\<close>

definition js_div :: "real \<Rightarrow> real \<Rightarrow> real option" where
  "js_div a b = (if b = 0 then None else Some (a / b))"

text \<open>
  The body of \<open>calculateHealthScore\<close> in the order of the source: the four guarded
  ratios, the five scores, the grade, the recommendations, and the result.
\<close>

definition savingsRate_of :: "HealthScoreInput \<Rightarrow> real option" where
  "savingsRate_of inp =
     (if monthlyIncome inp > 0
      then map_option (\<lambda>q. q * 100)
             (js_div (monthlyIncome inp - monthlyExpenses inp) (monthlyIncome inp))
      else Some 0)"

definition dti_of :: "HealthScoreInput \<Rightarrow> real option" where
  "dti_of inp =
     (if monthlyIncome inp > 0
      then map_option (\<lambda>q. q * 100) (js_div (totalDebt inp) (monthlyIncome inp * 12))
      else Some 100)"

definition emergencyMonths_of :: "HealthScoreInput \<Rightarrow> real option" where
  "emergencyMonths_of inp =
     (if monthlyExpenses inp > 0
      then js_div (emergencyFundBalance inp) (monthlyExpenses inp)
      else Some 0)"

definition investmentRate_of :: "HealthScoreInput \<Rightarrow> real option" where
  "investmentRate_of inp =
     (if monthlyIncome inp > 0
      then map_option (\<lambda>q. q * 100) (js_div (totalInvestments inp) (monthlyIncome inp * 12))
      else Some 0)"

definition savingsScore_of :: "real \<Rightarrow> real" where
  "savingsScore_of savingsRate = min 20 (max 0 savingsRate)"

definition dtiScore_of :: "real \<Rightarrow> real" where
  "dtiScore_of dti =
     (if dti \<le> 0 then 20 else if dti \<le> 20 then 18 else if dti \<le> 36 then 14
      else if dti \<le> 50 then 8 else 2)"

definition emergencyScore_of :: "real \<Rightarrow> real" where
  "emergencyScore_of emergencyMonths =
     (if emergencyMonths \<ge> 6 then 20 else if emergencyMonths \<ge> 3 then 14
      else if emergencyMonths \<ge> 1 then 8 else 2)"

definition investmentScore_of :: "real \<Rightarrow> real" where
  "investmentScore_of investmentRate =
     min 20 (if investmentRate \<ge> 100 then 20 else if investmentRate \<ge> 50 then 16
             else if investmentRate \<ge> 25 then 12 else if investmentRate \<ge> 10 then 8 else 4)"

definition utilizationScore_of :: "real \<Rightarrow> real" where
  "utilizationScore_of u =
     (if u \<le> 10 then 20 else if u \<le> 30 then 16 else if u \<le> 50 then 10
      else if u \<le> 75 then 5 else 1)"

definition grade_of :: "int \<Rightarrow> string" where
  "grade_of overall =
     (if overall \<ge> 90 then ''A'' else if overall \<ge> 80 then ''B''
      else if overall \<ge> 65 then ''C'' else if overall \<ge> 50 then ''D'' else ''F'')"

definition em_dash :: string where
  \<comment> \<open>the UTF-8 bytes of the dash in the second recommendation\<close>
  "em_dash = [CHR 0xE2, CHR 0x80, CHR 0x94]"

definition recommendations_of ::
  "NumberFormat \<Rightarrow> HealthScoreInput \<Rightarrow> real \<Rightarrow> real \<Rightarrow> real \<Rightarrow> string list" where
  "recommendations_of fmt inp savingsRate dti emergencyMonths =
     (let r1 = (if savingsRate < 20
                then [''Increase savings rate from '' @ toFixed fmt 1 savingsRate
                      @ ''% to at least 20% of income''] else []);
          r2 = (if dti > 36
                then r1 @ [''Reduce debt-to-income ratio from '' @ toFixed fmt 1 dti
                      @ ''% '' @ em_dash @ '' target under 36%''] else r1);
          r3 = (if emergencyMonths < 3
                then r2 @ [''Build emergency fund to at least 3 months of expenses (''
                      @ numToString fmt (real_of_int (js_round
                          (monthlyExpenses inp * 3 - emergencyFundBalance inp)))
                      @ '' more needed)''] else r2);
          r4 = (if emergencyMonths < 6 \<and> emergencyMonths \<ge> 3
                then r3 @ [''Grow emergency fund from '' @ toFixed fmt 1 emergencyMonths
                      @ '' to 6 months of expenses''] else r3);
          r5 = (if creditUtilization inp > 30
                then r4 @ [''Lower credit utilization from ''
                      @ toFixed fmt 0 (creditUtilization inp) @ ''% to under 30%''] else r4)
      in if length r5 = 0
         then r5 @ [''Excellent financial health! Consider increasing investment contributions.'']
         else r5)"

definition health_result ::
  "NumberFormat \<Rightarrow> HealthScoreInput \<Rightarrow> real \<Rightarrow> real \<Rightarrow> real \<Rightarrow> real \<Rightarrow> HealthScoreResult"
  where
  "health_result fmt inp savingsRate dti emergencyMonths investmentRate =
     (let overall = js_round (savingsScore_of savingsRate + dtiScore_of dti
                      + emergencyScore_of emergencyMonths + investmentScore_of investmentRate
                      + utilizationScore_of (creditUtilization inp))
      in \<lparr>overallScore = overall, grade = grade_of overall,
          savingsRateC = \<lparr>c_score = real_of_int (js_round (savingsScore_of savingsRate)),
             c_value = savingsRate,
             c_label = toFixed fmt 1 savingsRate @ ''% savings rate''\<rparr>,
          debtToIncomeC = \<lparr>c_score = dtiScore_of dti, c_value = dti,
             c_label = toFixed fmt 1 dti @ ''% DTI ratio''\<rparr>,
          emergencyFundC = \<lparr>c_score = emergencyScore_of emergencyMonths,
             c_value = emergencyMonths,
             c_label = toFixed fmt 1 emergencyMonths @ '' months coverage''\<rparr>,
          investmentRateC = \<lparr>c_score = investmentScore_of investmentRate,
             c_value = investmentRate,
             c_label = toFixed fmt 1 investmentRate @ ''% invested''\<rparr>,
          creditUtilizationC = \<lparr>c_score = utilizationScore_of (creditUtilization inp),
             c_value = creditUtilization inp,
             c_label = toFixed fmt 0 (creditUtilization inp) @ ''% utilization''\<rparr>,
          recommendations = recommendations_of fmt inp savingsRate dti emergencyMonths\<rparr>)"

definition calculateHealthScore ::
  "NumberFormat \<Rightarrow> HealthScoreInput \<Rightarrow> HealthScoreResult option" where
  "calculateHealthScore fmt inp =
     (case savingsRate_of inp of None \<Rightarrow> None | Some savingsRate \<Rightarrow>
     (case dti_of inp of None \<Rightarrow> None | Some dti \<Rightarrow>
     (case emergencyMonths_of inp of None \<Rightarrow> None | Some emergencyMonths \<Rightarrow>
     (case investmentRate_of inp of None \<Rightarrow> None | Some investmentRate \<Rightarrow>
        Some (health_result fmt inp savingsRate dti emergencyMonths investmentRate)))))"

section \<open>Cash-flow forecast (forecastCashFlow)\<close>

record RecurringFlow =
  f_amount :: real
  f_dayOfMonth :: real
  f_description :: string

record CashFlowForecast =
  cf_date :: string
  cf_projectedBalance :: real
  cf_income :: real
  cf_expenses :: real
  cf_label :: "string option"

text \<open>
  The clock and the calendar (\<open>new Date()\<close>, \<open>setDate\<close>, \<open>getDate\<close>,
  \<open>toISOString\<close>) belong to the runtime and are parameters: \<open>cal_getDate d\<close> is
  the day of the month of the date \<open>d\<close> days after today, \<open>cal_isoDate d\<close> the
  printed date.
\<close>

record Calendar =
  cal_getDate :: "nat \<Rightarrow> nat"
  cal_isoDate :: "nat \<Rightarrow> string"

fun js_join :: "string \<Rightarrow> string list \<Rightarrow> string" where
  "js_join sep [] = []"
| "js_join sep [x] = x"
| "js_join sep (x # y # ys) = x @ sep @ js_join sep (y # ys)"

text \<open>The two inner loops over the recurring flows: the day's sum and the labels.\<close>

fun income_pass :: "real \<Rightarrow> RecurringFlow list \<Rightarrow> real \<times> string list \<Rightarrow> real \<times> string list"
  where
  "income_pass dayOfMonth [] (dayIncome, labels) = (dayIncome, labels)"
| "income_pass dayOfMonth (inc # incs) (dayIncome, labels) =
     (if f_dayOfMonth inc = dayOfMonth
      then income_pass dayOfMonth incs
             (dayIncome + f_amount inc, labels @ [''+'' @ f_description inc])
      else income_pass dayOfMonth incs (dayIncome, labels))"

fun expense_pass :: "real \<Rightarrow> RecurringFlow list \<Rightarrow> real \<times> string list \<Rightarrow> real \<times> string list"
  where
  "expense_pass dayOfMonth [] (dayExpense, labels) = (dayExpense, labels)"
| "expense_pass dayOfMonth (ex # exs) (dayExpense, labels) =
     (if f_dayOfMonth ex = dayOfMonth
      then expense_pass dayOfMonth exs
             (dayExpense + \<bar>f_amount ex\<bar>, labels @ [''-'' @ f_description ex])
      else expense_pass dayOfMonth exs (dayExpense, labels))"

definition forecast_day ::
  "Calendar \<Rightarrow> RecurringFlow list \<Rightarrow> RecurringFlow list \<Rightarrow> nat \<Rightarrow> real
     \<Rightarrow> real \<times> CashFlowForecast" where
  "forecast_day cal recurringIncome recurringExpenses d balance =
     (let dayOfMonth = real (cal_getDate cal d);
          (dayIncome, labels1) = income_pass dayOfMonth recurringIncome (0, []);
          (dayExpense, labels) = expense_pass dayOfMonth recurringExpenses (0, labels1);
          balance' = balance + dayIncome - dayExpense
      in (balance',
          \<lparr>cf_date = cal_isoDate cal d, cf_projectedBalance = round_cents balance',
           cf_income = dayIncome, cf_expenses = dayExpense,
           cf_label = (if length labels > 0 then Some (js_join '', '' labels) else None)\<rparr>))"

function forecast_loop ::
  "Calendar \<Rightarrow> RecurringFlow list \<Rightarrow> RecurringFlow list \<Rightarrow> real \<Rightarrow> nat \<Rightarrow> real
     \<Rightarrow> CashFlowForecast list \<Rightarrow> CashFlowForecast list" where
  "forecast_loop cal recurringIncome recurringExpenses days d balance forecast =
     (if real d < days
      then (case forecast_day cal recurringIncome recurringExpenses d balance of
              (balance', entry) \<Rightarrow>
                forecast_loop cal recurringIncome recurringExpenses days (d + 1) balance'
                  (forecast @ [entry]))
      else forecast)"
  by pat_completeness auto
termination
  by (relation "measure (\<lambda>(cal, inc, ex, days, d, balance, forecast). nat \<lceil>days\<rceil> - d)")
     (auto dest!: nat_less_ceiling)

declare forecast_loop.simps [simp del]

definition forecastCashFlow ::
  "Calendar \<Rightarrow> real \<Rightarrow> RecurringFlow list \<Rightarrow> RecurringFlow list \<Rightarrow> real
     \<Rightarrow> CashFlowForecast list" where
  "forecastCashFlow cal currentBalance recurringIncome recurringExpenses days =
     forecast_loop cal recurringIncome recurringExpenses days 0 currentBalance []"

section \<open>Investment growth projection (the investment-growth handler)\<close>

text \<open>
  The computation of the handler after its inputs are read and clamped: \<open>years\<close>,
  \<open>annualReturnPct\<close>, \<open>currentBalance\<close> and \<open>monthlyAdd\<close> are numbers.
\<close>

record ProjectionEntry =
  pr_year :: nat
  pr_balance :: real
  pr_contributions :: real
  pr_growth :: real

definition month_step :: "real \<Rightarrow> real \<Rightarrow> real \<times> real \<Rightarrow> real \<times> real" where
  "month_step monthlyRate monthlyAdd bt =
     (case bt of (balance, totalContributions) \<Rightarrow>
        (balance * (1 + monthlyRate) + monthlyAdd, totalContributions + monthlyAdd))"

function projection_loop ::
  "real \<Rightarrow> real \<Rightarrow> real \<Rightarrow> nat \<Rightarrow> real \<times> real \<Rightarrow> ProjectionEntry list
     \<Rightarrow> ProjectionEntry list" where
  "projection_loop years monthlyRate monthlyAdd year bt projection =
     (if real year \<le> years
      then (case (month_step monthlyRate monthlyAdd ^^ 12) bt of
              (balance, totalContributions) \<Rightarrow>
                projection_loop years monthlyRate monthlyAdd (year + 1)
                  (balance, totalContributions)
                  (projection @
                     [\<lparr>pr_year = year, pr_balance = round_cents balance,
                       pr_contributions = round_cents totalContributions,
                       pr_growth = round_cents (balance - totalContributions)\<rparr>]))
      else projection)"
  by pat_completeness auto
termination
  by (relation "measure (\<lambda>(years, r, a, year, bt, p). nat \<lfloor>years\<rfloor> + 1 - year)")
     (auto dest!: nat_le_floor)

declare projection_loop.simps [simp del]

definition project :: "real \<Rightarrow> real \<Rightarrow> real \<Rightarrow> real \<Rightarrow> ProjectionEntry list" where
  "project years annualReturnPct monthlyAdd currentBalance =
     (let rate = annualReturnPct / 100;
          monthlyRate = rate / 12
      in projection_loop years monthlyRate monthlyAdd 1 (currentBalance, currentBalance) [])"

subsection \<open>Monte Carlo bands\<close>

text \<open>
  \<open>Math.random()\<close> is the sequence \<open>rnd\<close> of its successive results, read at a
  position that every call advances.
\<close>

type_synonym Rng = "nat \<Rightarrow> real"

definition mc_month :: "Rng \<Rightarrow> real \<Rightarrow> real \<Rightarrow> real \<Rightarrow> real \<times> nat \<Rightarrow> real \<times> nat" where
  "mc_month rnd avgReturn stdDev monthlyAdd bp =
     (case bp of (bal, pos) \<Rightarrow>
        (let randomReturn = avgReturn + stdDev * (rnd pos * 2 - 1)
         in (bal * (1 + randomReturn / 12) + monthlyAdd, pos + 1)))"

function sim_loop ::
  "Rng \<Rightarrow> real \<Rightarrow> real \<Rightarrow> real \<Rightarrow> real \<Rightarrow> nat \<Rightarrow> real \<times> nat \<Rightarrow> real list
     \<Rightarrow> real list \<times> nat" where
  "sim_loop rnd years avgReturn stdDev monthlyAdd year bp results =
     (if real year \<le> years
      then (case (mc_month rnd avgReturn stdDev monthlyAdd ^^ 12) bp of
              (bal, pos) \<Rightarrow>
                sim_loop rnd years avgReturn stdDev monthlyAdd (year + 1) (bal, pos)
                  (results @ [round_cents bal]))
      else (results, snd bp))"
  by pat_completeness auto
termination
  by (relation "measure (\<lambda>(rnd, years, a, s, m, year, bp, rs). nat \<lfloor>years\<rfloor> + 1 - year)")
     (auto dest!: nat_le_floor)

declare sim_loop.simps [simp del]

definition runSimulation ::
  "Rng \<Rightarrow> real \<Rightarrow> real \<Rightarrow> real \<Rightarrow> real \<Rightarrow> real \<Rightarrow> nat \<Rightarrow> real list \<times> nat" where
  "runSimulation rnd years currentBalance monthlyAdd avgReturn stdDev pos =
     sim_loop rnd years avgReturn stdDev monthlyAdd 1 (currentBalance, pos) []"

record Runs =
  conservativeRuns :: "real list list"
  moderateRuns :: "real list list"
  aggressiveRuns :: "real list list"
  rnd_pos :: nat

definition runs_step :: "Rng \<Rightarrow> real \<Rightarrow> real \<Rightarrow> real \<Rightarrow> Runs \<Rightarrow> Runs" where
  "runs_step rnd years currentBalance monthlyAdd rs =
     (case runSimulation rnd years currentBalance monthlyAdd 0.05 0.08 (rnd_pos rs) of
        (c, p1) \<Rightarrow>
     (case runSimulation rnd years currentBalance monthlyAdd 0.07 0.12 p1 of
        (m, p2) \<Rightarrow>
     (case runSimulation rnd years currentBalance monthlyAdd 0.10 0.18 p2 of
        (a, p3) \<Rightarrow>
        \<lparr>conservativeRuns = conservativeRuns rs @ [c], moderateRuns = moderateRuns rs @ [m],
         aggressiveRuns = aggressiveRuns rs @ [a], rnd_pos = p3\<rparr>)))"

definition all_runs :: "Rng \<Rightarrow> real \<Rightarrow> real \<Rightarrow> real \<Rightarrow> Runs" where
  \<comment> \<open>\<open>for (let i = 0; i < 50; i++)\<close>\<close>
  "all_runs rnd years currentBalance monthlyAdd =
     (runs_step rnd years currentBalance monthlyAdd ^^ 50)
       \<lparr>conservativeRuns = [], moderateRuns = [], aggressiveRuns = [], rnd_pos = 0\<rparr>"

text \<open>
  Reading an array out of range gives \<open>undefined\<close>, here \<open>None\<close>; the sort of an
  array puts the numbers in ascending order before all \<open>undefined\<close> entries.
\<close>

definition js_index :: "'a list \<Rightarrow> int \<Rightarrow> 'a option" where
  "js_index xs i = (if 0 \<le> i \<and> i < int (length xs) then Some (xs ! nat i) else None)"

definition js_sort_numbers :: "real option list \<Rightarrow> real option list" where
  "js_sort_numbers vs =
     map Some (sort (map the (filter (\<lambda>v. v \<noteq> None) vs)))
     @ filter (\<lambda>v. v = None) vs"

definition getPercentile :: "real list list \<Rightarrow> nat \<Rightarrow> real \<Rightarrow> real option" where
  "getPercentile runs yearIdx pct =
     (let vals = js_sort_numbers (map (\<lambda>r. js_index r (int yearIdx)) runs);
          idx = \<lfloor>real (length vals) * pct\<rfloor>
      in case js_index vals idx of None \<Rightarrow> None | Some v \<Rightarrow> v)"

record Band =
  b_low :: "real option"
  b_mid :: "real option"
  b_high :: "real option"

record MonteCarloYearEntry =
  mc_year :: nat
  mc_conservative :: Band
  mc_moderate :: Band
  mc_aggressive :: Band

definition band :: "real list list \<Rightarrow> nat \<Rightarrow> Band" where
  "band runs y =
     \<lparr>b_low = getPercentile runs y 0.1, b_mid = getPercentile runs y 0.5,
      b_high = getPercentile runs y 0.9\<rparr>"

function mc_loop :: "real \<Rightarrow> Runs \<Rightarrow> nat \<Rightarrow> MonteCarloYearEntry list \<Rightarrow> MonteCarloYearEntry list"
  where
  "mc_loop years rs y monteCarlo =
     (if real y < years
      then mc_loop years rs (y + 1)
             (monteCarlo @
                [\<lparr>mc_year = y + 1, mc_conservative = band (conservativeRuns rs) y,
                  mc_moderate = band (moderateRuns rs) y,
                  mc_aggressive = band (aggressiveRuns rs) y\<rparr>])
      else monteCarlo)"
  by pat_completeness auto
termination
  by (relation "measure (\<lambda>(years, rs, y, mc). nat \<lceil>years\<rceil> - y)")
     (auto dest!: nat_less_ceiling)

declare mc_loop.simps [simp del]

definition monteCarlo :: "Rng \<Rightarrow> real \<Rightarrow> real \<Rightarrow> real \<Rightarrow> MonteCarloYearEntry list" where
  "monteCarlo rnd years currentBalance monthlyAdd =
     mc_loop years (all_runs rnd years currentBalance monthlyAdd) 0 []"

text \<open>
  Rounding to cents as the specification words it, without reference to the code:
  \<open>r\<close> is \<open>x\<close> rounded to cents when \<open>r\<close> is a whole number of hundredths
  and the nearest one to \<open>x\<close>, the upper one of the two when \<open>x\<close> lies halfway.
\<close>

definition cents_of :: "real \<Rightarrow> real \<Rightarrow> bool" where
  "cents_of x r =
     (real_of_int \<lfloor>r * 100\<rfloor> = r * 100 \<and> x - 1 / 200 < r \<and> r \<le> x + 1 / 200)"

text \<open>
  The projection as the specification words it: the balance after \<open>n\<close> monthly
  compounding steps, and the yearly snapshot of year \<open>y\<close>. \<open>projection_entry\<close>
  computes the snapshot with the rounding of the code; \<open>projection_entry_ok\<close> says
  what a snapshot has to be, with \<open>cents_of\<close>.
\<close>

definition compound :: "real \<Rightarrow> real \<Rightarrow> nat \<Rightarrow> real \<Rightarrow> real" where
  "compound monthlyRate contribution n b = ((\<lambda>x. x * (1 + monthlyRate) + contribution) ^^ n) b"

definition projection_entry :: "real \<Rightarrow> real \<Rightarrow> real \<Rightarrow> nat \<Rightarrow> ProjectionEntry" where
  "projection_entry monthlyRate contribution initial y =
     \<lparr>pr_year = y,
      pr_balance = round_cents (compound monthlyRate contribution (12 * y) initial),
      pr_contributions = round_cents (initial + 12 * real y * contribution),
      pr_growth = round_cents (compound monthlyRate contribution (12 * y) initial
                     - (initial + 12 * real y * contribution))\<rparr>"

definition projection_entry_ok :: "real \<Rightarrow> real \<Rightarrow> real \<Rightarrow> ProjectionEntry \<Rightarrow> bool" where
  "projection_entry_ok monthlyRate contribution initial e =
     (cents_of (compound monthlyRate contribution (12 * pr_year e) initial) (pr_balance e)
      \<and> cents_of (initial + 12 * real (pr_year e) * contribution) (pr_contributions e)
      \<and> cents_of (compound monthlyRate contribution (12 * pr_year e) initial
                   - (initial + 12 * real (pr_year e) * contribution)) (pr_growth e))"

text \<open>A band is ordered when its three percentiles are numbers in ascending order.\<close>

definition band_ordered :: "Band \<Rightarrow> bool" where
  "band_ordered b =
     (case (b_low b, b_mid b, b_high b) of
        (Some l, Some m, Some h) \<Rightarrow> l \<le> m \<and> m \<le> h
      | _ \<Rightarrow> False)"

definition mc_entry :: "Runs \<Rightarrow> nat \<Rightarrow> MonteCarloYearEntry" where
  "mc_entry rs y =
     \<lparr>mc_year = y + 1, mc_conservative = band (conservativeRuns rs) y,
      mc_moderate = band (moderateRuns rs) y, mc_aggressive = band (aggressiveRuns rs) y\<rparr>"

definition runs_ok :: "nat \<Rightarrow> nat \<Rightarrow> real list list \<Rightarrow> bool" where
  "runs_ok k n runs = (length runs = k \<and> list_all (\<lambda>r. length r = n) runs)"








definition cal31 :: Calendar where
  "cal31 = \<lparr>cal_getDate = (\<lambda>d. d mod 31 + 1), cal_isoDate = (\<lambda>d. [])\<rparr>"

definition pay :: RecurringFlow where
  "pay = \<lparr>f_amount = 2000, f_dayOfMonth = 1, f_description = ''Pay''\<rparr>"

definition rent :: RecurringFlow where
  "rent = \<lparr>f_amount = - 500, f_dayOfMonth = 15, f_description = ''Rent''\<rparr>"

section \<open>Properties of the payoff simulation: vocabulary\<close>

text \<open>
  The preconditions on the debts, the entries of one month before the third pass
  (\<open>month_entries\<close>), the balance an entry leaves behind, and the predicates the
  theorems about the schedule use. The three debts \<open>dA\<close>, \<open>dB\<close>, \<open>dC\<close> are
  the running example.
\<close>

definition valid_debt :: "DebtInput \<Rightarrow> bool" where
  "valid_debt d = (0 \<le> d_balance d \<and> 0 \<le> d_rate d \<and> d_rate d \<le> 100 \<and> 0 \<le> d_minimum d)"

definition valid_debts :: "DebtInput list \<Rightarrow> bool" where
  "valid_debts debts = list_all valid_debt debts"

definition new_balance :: "PayoffDebt \<Rightarrow> real" where
  "new_balance e = max 0 (e_balance e + e_interest e - e_payment e)"

definition month_entries :: "DebtInput list \<Rightarrow> real \<Rightarrow> Balances \<Rightarrow> PayoffDebt list" where
  "month_entries srt extraMonthly bal =
     second_pass srt bal (extraMonthly + freedMinimums srt bal)
       (map (first_pass bal) (remaining_debts srt bal))"

definition apply_bal :: "Balances \<Rightarrow> PayoffDebt list \<Rightarrow> Balances" where
  "apply_bal bal ms = foldl (\<lambda>b e. b(e_id e := new_balance e)) bal ms"

definition entry_nonneg :: "PayoffDebt \<Rightarrow> bool" where
  "entry_nonneg e =
     (0 \<le> e_balance e \<and> 0 \<le> e_payment e \<and> 0 \<le> e_interest e
      \<and> e_principal e = e_payment e - e_interest e)"

definition month_nonneg :: "PayoffMonth \<Rightarrow> bool" where
  "month_nonneg m =
     (0 \<le> m_totalBalance m \<and> 0 \<le> m_totalPayment m \<and> 0 \<le> m_totalInterest m
      \<and> list_all entry_nonneg (m_debts m))"

definition result_nonneg :: "PayoffResult \<Rightarrow> bool" where
  "result_nonneg r =
     (0 \<le> r_totalPaid r \<and> 0 \<le> r_totalInterest r \<and> list_all month_nonneg (r_schedule r))"


definition entry_pre :: "PayoffDebt \<Rightarrow> bool" where
  "entry_pre e = (0 \<le> e_payment e \<and> 0 \<le> e_interest e
      \<and> e_principal e = e_payment e - e_interest e)"

definition state_nonneg :: "LoopState \<Rightarrow> bool" where
  "state_nonneg st =
     ((\<forall>k. 0 \<le> s_balances st k) \<and> 0 \<le> s_totalPaid st \<and> 0 \<le> s_totalInterestPaid st
      \<and> list_all month_nonneg (s_schedule st))"




definition dA :: DebtInput where
  "dA = \<lparr>d_id = ''a'', d_name = ''A'', d_balance = 1, d_rate = 0, d_minimum = 0\<rparr>"

definition dB :: DebtInput where
  "dB = \<lparr>d_id = ''b'', d_name = ''B'', d_balance = 2, d_rate = 0, d_minimum = 0\<rparr>"

definition dC :: DebtInput where
  "dC = \<lparr>d_id = ''c'', d_name = ''C'', d_balance = 1200, d_rate = 12, d_minimum = 0\<rparr>"


definition dP :: DebtInput where
  "dP = \<lparr>d_id = ''__proto__'', d_name = ''p'', d_balance = 30, d_rate = 0, d_minimum = 10\<rparr>"

definition dQ :: DebtInput where
  "dQ = \<lparr>d_id = ''q'', d_name = ''q'', d_balance = 20, d_rate = 0, d_minimum = 10\<rparr>"


text \<open>
  A debt is paid in a month when the record of that month has an entry of that id with a
  balance of at most 0.01; \<open>first_paid\<close> is the number of the first such month.
\<close>

definition paid_in :: "string \<Rightarrow> PayoffMonth \<Rightarrow> bool" where
  "paid_in k m = list_ex (\<lambda>e. e_id e = k \<and> e_balance e \<le> 0.01) (m_debts m)"

definition first_paid :: "PayoffMonth list \<Rightarrow> string \<Rightarrow> nat option" where
  "first_paid schedule k = map_option m_month (find (paid_in k) schedule)"

definition payoff_order_ok :: "PayoffResult \<Rightarrow> bool" where
  "payoff_order_ok r =
     (length (r_schedule r) = r_months r
      \<and> map m_month (r_schedule r) = [1 ..< Suc (r_months r)]
      \<and> distinct (map p_id (r_debtPayoffOrder r))
      \<and> list_all (\<lambda>p. first_paid (r_schedule r) (p_id p) = Some (p_payoffMonth p))
           (r_debtPayoffOrder r)
      \<and> sorted (map p_payoffMonth (r_debtPayoffOrder r)))"

definition order_state :: "LoopState \<Rightarrow> bool" where
  "order_state st =
     (length (s_schedule st) = s_month st
      \<and> map m_month (s_schedule st) = [1 ..< Suc (s_month st)]
      \<and> distinct (map p_id (s_payoffOrder st))
      \<and> list_all (\<lambda>p. first_paid (s_schedule st) (p_id p) = Some (p_payoffMonth p)
                     \<and> p_payoffMonth p \<le> s_month st) (s_payoffOrder st)
      \<and> sorted (map p_payoffMonth (s_payoffOrder st))
      \<and> list_all (\<lambda>m. list_all (\<lambda>e. e_balance e \<le> 0.01 \<longrightarrow> e_id e \<in> p_id ` set (s_payoffOrder st))
                     (m_debts m)) (s_schedule st))"

text \<open>
  The balances of one month in a single pass over the sorted debts: \<open>step_bal\<close>
  walks the debts, gives the extra budget to the first one that is still above 0.01
  (\<open>with_extra\<close>) and the minimum payment to the others. \<open>eff\<close> reads a balance
  of at most 0.01 as paid, and \<open>bal_le\<close> compares two balance maps that way. The
  debts \<open>dX\<close>, \<open>dY\<close>, \<open>dZ\<close> are a second example, without interest.
\<close>

definition with_extra :: "real \<Rightarrow> PayoffDebt \<Rightarrow> PayoffDebt" where
  "with_extra X e =
     (if X \<le> 0 then e
      else (let maxExtra = min X (e_balance e + e_interest e - e_payment e + 0.01)
            in if maxExtra > 0
               then e\<lparr>e_payment := e_payment e + maxExtra, e_principal := e_principal e + maxExtra\<rparr>
               else e))"

fun step_bal :: "DebtInput list \<Rightarrow> Balances \<Rightarrow> real \<Rightarrow> bool \<Rightarrow> Balances \<Rightarrow> Balances" where
  "step_bal [] bal X target_open new = new"
| "step_bal (d # ds) bal X target_open new =
     (if above_cent bal (d_id d)
      then step_bal ds bal X False
             (new(d_id d := new_balance
                (if target_open then with_extra X (first_pass bal d) else first_pass bal d)))
      else step_bal ds bal X target_open new)"

definition grown :: "DebtInput \<Rightarrow> real \<Rightarrow> real" where
  "grown d b = b + b * (d_rate d / 100 / 12)"

definition plain_balance :: "DebtInput \<Rightarrow> real \<Rightarrow> real" where
  "plain_balance d b = max 0 (grown d b - d_minimum d)"

definition eff :: "real \<Rightarrow> real" where
  "eff b = (if b > 0.01 then b else 0)"

definition bal_le :: "Balances \<Rightarrow> Balances \<Rightarrow> bool" where
  "bal_le b2 b1 = (\<forall>k. eff (b2 k) \<le> eff (b1 k))"

definition month_interest_of :: "DebtInput list \<Rightarrow> Balances \<Rightarrow> real" where
  "month_interest_of srt bal =
     sum_list (map (\<lambda>d. bal (d_id d) * (d_rate d / 100 / 12)) (remaining_debts srt bal))"

definition dX :: DebtInput where
  "dX = \<lparr>d_id = ''x'', d_name = ''X'', d_balance = 330, d_rate = 0, d_minimum = 10\<rparr>"

definition dY :: DebtInput where
  "dY = \<lparr>d_id = ''y'', d_name = ''Y'', d_balance = 200, d_rate = 0, d_minimum = 100\<rparr>"

definition dZ :: DebtInput where
  "dZ = \<lparr>d_id = ''z'', d_name = ''Z'', d_balance = 100, d_rate = 0, d_minimum = 100\<rparr>"

section \<open>Termination and the month cap\<close>

lemma payoff_loop_month_le:
  "s_month st \<le> maxMonths \<Longrightarrow> s_month (payoff_loop srt extraMonthly st) \<le> maxMonths"
proof (induction srt extraMonthly st rule: payoff_loop.induct)
  case (1 srt extraMonthly st)
  show ?case
  proof (cases "s_month st < maxMonths \<and> remaining_debts srt (s_balances st) \<noteq> []")
    case True
    then have "s_month (payoff_month srt extraMonthly st) \<le> maxMonths"
      by (simp add: s_month_payoff_month)
    with 1 True show ?thesis
      by (subst payoff_loop.simps) simp
  next
    case False
    with 1 show ?thesis
      by (subst payoff_loop.simps) auto
  qed
qed

text \<open>
  C1: \<open>calculatePayoff\<close> is a total function (its loop is defined with a termination
  proof on \<open>maxMonths - month\<close>), and for every list of debts, every strategy and
  every extra payment the returned \<open>months\<close> is at most 360.
\<close>

theorem calculatePayoff_months_le_360:
  "r_months (calculatePayoff debts strategy extraMonthly) \<le> 360"
proof -
  have "s_month (init_state (sort_debts strategy debts)) \<le> maxMonths"
    by (simp add: init_state_def)
  then have "s_month (payoff_loop (sort_debts strategy debts) extraMonthly
      (init_state (sort_debts strategy debts))) \<le> maxMonths"
    by (rule payoff_loop_month_le)
  then show ?thesis
    by (simp add: calculatePayoff_def Let_def maxMonths_def)
qed

section \<open>The health score never divides by zero\<close>

lemma savingsRate_of_Some:
  "\<exists>v. savingsRate_of inp = Some v \<and> (monthlyIncome inp \<le> 0 \<longrightarrow> v = 0)"
  by (simp add: savingsRate_of_def js_div_def)

lemma dti_of_Some: "\<exists>v. dti_of inp = Some v \<and> (monthlyIncome inp \<le> 0 \<longrightarrow> v = 100)"
  by (simp add: dti_of_def js_div_def)

lemma emergencyMonths_of_Some:
  "\<exists>v. emergencyMonths_of inp = Some v \<and> (monthlyExpenses inp \<le> 0 \<longrightarrow> v = 0)"
  by (simp add: emergencyMonths_of_def js_div_def)

lemma investmentRate_of_Some: "\<exists>v. investmentRate_of inp = Some v"
  by (simp add: investmentRate_of_def js_div_def)

lemma savingsScore_round_bounds:
  "0 \<le> js_round (savingsScore_of v) \<and> js_round (savingsScore_of v) \<le> 20"
  unfolding js_round_def savingsScore_of_def by (auto simp: min_def max_def; linarith)

lemma savingsScore_zero: "js_round (savingsScore_of 0) = 0"
  by (simp add: js_round_def savingsScore_of_def)

lemma health_result_sel:
  "c_score (savingsRateC (health_result fmt inp a b c d))
     = real_of_int (js_round (savingsScore_of a))"
  "c_value (savingsRateC (health_result fmt inp a b c d)) = a"
  "c_value (debtToIncomeC (health_result fmt inp a b c d)) = b"
  "c_value (emergencyFundC (health_result fmt inp a b c d)) = c"
  by (simp_all add: health_result_def Let_def)

text \<open>
  C6: for every input \<open>calculateHealthScore\<close> returns a result (no division by zero
  is ever evaluated, so no field is \<open>NaN\<close>); the savings-rate score lies between 0
  and 20; when \<open>monthlyIncome \<le> 0\<close> the savings-rate value and score are 0 and the
  debt-to-income value is the sentinel 100; when \<open>monthlyExpenses \<le> 0\<close> the
  emergency-fund value is 0 months.
\<close>

theorem calculateHealthScore_total:
  "\<exists>r. calculateHealthScore fmt inp = Some r \<and>
     0 \<le> c_score (savingsRateC r) \<and> c_score (savingsRateC r) \<le> 20 \<and>
     (monthlyIncome inp \<le> 0 \<longrightarrow>
        c_value (savingsRateC r) = 0 \<and> c_score (savingsRateC r) = 0 \<and>
        c_value (debtToIncomeC r) = 100) \<and>
     (monthlyExpenses inp \<le> 0 \<longrightarrow> c_value (emergencyFundC r) = 0)"
proof -
  obtain sr where sr: "savingsRate_of inp = Some sr" "monthlyIncome inp \<le> 0 \<longrightarrow> sr = 0"
    using savingsRate_of_Some by blast
  obtain dti where dti: "dti_of inp = Some dti" "monthlyIncome inp \<le> 0 \<longrightarrow> dti = 100"
    using dti_of_Some by blast
  obtain em where em: "emergencyMonths_of inp = Some em" "monthlyExpenses inp \<le> 0 \<longrightarrow> em = 0"
    using emergencyMonths_of_Some by blast
  obtain ir where ir: "investmentRate_of inp = Some ir"
    using investmentRate_of_Some by blast
  have r: "calculateHealthScore fmt inp = Some (health_result fmt inp sr dti em ir)"
    by (simp add: calculateHealthScore_def sr dti em ir)
  show ?thesis
    using sr(2) dti(2) em(2) savingsScore_round_bounds[of sr] savingsScore_zero
    by (simp add: r health_result_sel)
qed

theorem calculateHealthScore_total_witness:
  "\<exists>r. calculateHealthScore \<lparr>toFixed = (\<lambda>n x. []), numToString = (\<lambda>x. [])\<rparr>
       \<lparr>monthlyIncome = 0, monthlyExpenses = 0, totalDebt = 500, totalAssets = 0,
        totalInvestments = 0, emergencyFundBalance = 100, creditUtilization = 40\<rparr> = Some r \<and>
     c_value (savingsRateC r) = 0 \<and> c_score (savingsRateC r) = 0 \<and>
     c_value (debtToIncomeC r) = 100 \<and> c_value (emergencyFundC r) = 0"
  using calculateHealthScore_total [of "\<lparr>toFixed = (\<lambda>n x. []), numToString = (\<lambda>x. [])\<rparr>"
       "\<lparr>monthlyIncome = 0, monthlyExpenses = 0, totalDebt = 500, totalAssets = 0,
        totalInvestments = 0, emergencyFundBalance = 100, creditUtilization = 40\<rparr>"]
  by auto

section \<open>Rounding to cents\<close>

text \<open>
  \<open>Math.round(x * 100) / 100\<close> is the rounding to cents: it yields a whole number
  of hundredths within half a cent of \<open>x\<close>, the upper one at a tie, and it is the
  only number that does.
\<close>

lemma cents_of_round_cents: "cents_of x (round_cents x)"
proof -
  define n where "n = \<lfloor>x * 100 + 1 / 2\<rfloor>"
  have r: "round_cents x = real_of_int n / 100"
    by (simp add: round_cents_def js_round_def n_def)
  have lo: "real_of_int n \<le> x * 100 + 1 / 2"
    unfolding n_def by (rule of_int_floor_le)
  have hi: "x * 100 + 1 / 2 < real_of_int n + 1"
    unfolding n_def by linarith
  have "real_of_int \<lfloor>real_of_int n / 100 * 100\<rfloor> = real_of_int n / 100 * 100"
    by simp
  moreover have "x - 1 / 200 < real_of_int n / 100" using hi by simp
  moreover have "real_of_int n / 100 \<le> x + 1 / 200" using lo by simp
  ultimately show ?thesis unfolding cents_of_def r by (intro conjI)
qed

lemma cents_of_unique:
  assumes "cents_of x r"
  shows "r = round_cents x"
proof -
  define m where "m = \<lfloor>r * 100\<rfloor>"
  have "real_of_int \<lfloor>r * 100\<rfloor> = r * 100"
    using assms unfolding cents_of_def by (rule conjunct1)
  then have r: "r * 100 = real_of_int m" unfolding m_def by (rule sym)
  have lo: "x - 1 / 200 < r" and hi: "r \<le> x + 1 / 200"
    using assms by (simp_all add: cents_of_def)
  have "real_of_int m \<le> x * 100 + 1 / 2" using hi r [symmetric] by simp
  moreover have "x * 100 + 1 / 2 < real_of_int m + 1" using lo r [symmetric] by simp
  ultimately have "\<lfloor>x * 100 + 1 / 2\<rfloor> = m" by (rule floor_unique)
  then have "round_cents x = real_of_int m / 100"
    by (simp add: round_cents_def js_round_def)
  also have "\<dots> = r" using r by simp
  finally show ?thesis by simp
qed

lemma round_cents_examples:
  "round_cents (1234567 / 100000) = 1235 / 100"
  "round_cents (1 / 8) = 13 / 100"
  "round_cents (- 1 / 8) = - 12 / 100"
  "round_cents 3000 = 3000"
  by (simp_all add: round_cents_def js_round_def)

lemma not_cents_example: "\<not> cents_of (1 / 8) (1 / 8)"
  by (simp add: cents_of_def)

section \<open>The deterministic projection\<close>

lemma month_step_funpow:
  "(month_step r c ^^ n) (b, t) = (compound r c n b, t + real n * c)"
  by (induction n) (simp_all add: compound_def month_step_def algebra_simps)

lemma projection_loop_entries:
  "1 \<le> year \<Longrightarrow> bt = (month_step r c ^^ (12 * (year - 1))) (b0, b0) \<Longrightarrow>
   projection_loop years r c year bt acc
     = acc @ map (projection_entry r c b0) [year ..< Suc (nat \<lfloor>years\<rfloor>)]"
proof (induction years r c year bt acc rule: projection_loop.induct)
  case (1 years r c year bt acc)
  show ?case
  proof (cases "real year \<le> years")
    case False
    have "\<not> year \<le> nat \<lfloor>years\<rfloor>"
    proof
      assume "year \<le> nat \<lfloor>years\<rfloor>"
      with 1(2) have "int year \<le> \<lfloor>years\<rfloor>" by linarith
      then have "real year \<le> years" by (simp add: le_floor_iff)
      with False show False by simp
    qed
    then have "[year ..< Suc (nat \<lfloor>years\<rfloor>)] = []" by simp
    with False show ?thesis
      by (subst projection_loop.simps) simp
  next
    case True
    then have le: "year \<le> nat \<lfloor>years\<rfloor>" by (rule nat_le_floor)
    have twelve: "12 + 12 * (year - 1) = 12 * year" using 1(2) by simp
    have "(month_step r c ^^ (12 + 12 * (year - 1))) (b0, b0) = (month_step r c ^^ 12) bt"
      unfolding 1(3) by (simp only: funpow_add o_apply)
    then have bt12: "(month_step r c ^^ 12) bt = (month_step r c ^^ (12 * year)) (b0, b0)"
      unfolding twelve by simp
    obtain balance total where bt': "(month_step r c ^^ 12) bt = (balance, total)"
      by (cases "(month_step r c ^^ 12) bt")
    have vals: "balance = compound r c (12 * year) b0" "total = b0 + real (12 * year) * c"
      using bt' bt12 by (simp_all add: month_step_funpow)
    have next_state: "(balance, total) = (month_step r c ^^ (12 * (year + 1 - 1))) (b0, b0)"
      using bt' bt12 by simp
    let ?e = "\<lparr>pr_year = year, pr_balance = round_cents balance,
                 pr_contributions = round_cents total,
                 pr_growth = round_cents (balance - total)\<rparr>"
    have IH: "projection_loop years r c (year + 1) (balance, total) (acc @ [?e])
      = (acc @ [?e]) @ map (projection_entry r c b0) [year + 1 ..< Suc (nat \<lfloor>years\<rfloor>)]"
      by (rule 1(1)[OF True bt'[symmetric] _ next_state]) simp
    have entry: "\<lparr>pr_year = year, pr_balance = round_cents balance,
                 pr_contributions = round_cents total,
                 pr_growth = round_cents (balance - total)\<rparr> = projection_entry r c b0 year"
      by (simp add: projection_entry_def vals)
    have split: "[year ..< Suc (nat \<lfloor>years\<rfloor>)] = year # [year + 1 ..< Suc (nat \<lfloor>years\<rfloor>)]"
      using le by (simp add: upt_conv_Cons)
    have "projection_loop years r c year bt acc
        = projection_loop years r c (year + 1) (balance, total) (acc @ [?e])"
      by (subst projection_loop.simps) (simp only: True if_True bt' prod.case)
    also have "\<dots> = (acc @ [?e]) @ map (projection_entry r c b0) [year + 1 ..< Suc (nat \<lfloor>years\<rfloor>)]"
      by (rule IH)
    also have "\<dots> = acc @ map (projection_entry r c b0) [year ..< Suc (nat \<lfloor>years\<rfloor>)]"
      unfolding split entry by simp
    finally show ?thesis .
  qed
qed

lemma project_as_map:
  "project years annualReturnPct monthlyAdd currentBalance
     = map (projection_entry (annualReturnPct / 100 / 12) monthlyAdd currentBalance)
         [1 ..< Suc (nat \<lfloor>years\<rfloor>)]"
  using projection_loop_entries [of 1 "(currentBalance, currentBalance)"
      "annualReturnPct / 100 / 12" monthlyAdd currentBalance years "[]"]
  by (simp add: project_def Let_def)

lemma projection_entry_ok_entry:
  "projection_entry_ok r c b (projection_entry r c b y)"
  by (simp add: projection_entry_ok_def projection_entry_def cents_of_round_cents)

lemma pr_year_projection_entry: "pr_year (projection_entry r c b y) = y"
  by (simp add: projection_entry_def)

text \<open>
  C9: the deterministic projection has one entry for each year \<open>1, \<dots>, \<lfloor>years\<rfloor>\<close>,
  in that order. In the entry of year \<open>y\<close> the balance is the result of \<open>12 * y\<close>
  steps \<open>balance * (1 + annualReturnPct / 100 / 12) + monthlyAdd\<close> from
  \<open>currentBalance\<close>, the contributions are \<open>currentBalance + 12 * y * monthlyAdd\<close>
  and the growth is that balance minus those contributions, each rounded to cents: a
  whole number of hundredths, the nearest one to the exact value, the upper one at a tie.
\<close>

theorem project_entries:
  "map pr_year (project years annualReturnPct monthlyAdd currentBalance)
     = [1 ..< Suc (nat \<lfloor>years\<rfloor>)]
   \<and> list_all (projection_entry_ok (annualReturnPct / 100 / 12) monthlyAdd currentBalance)
       (project years annualReturnPct monthlyAdd currentBalance)"
proof
  show "map pr_year (project years annualReturnPct monthlyAdd currentBalance)
     = [1 ..< Suc (nat \<lfloor>years\<rfloor>)]"
    unfolding project_as_map by (simp add: o_def pr_year_projection_entry)
  show "list_all (projection_entry_ok (annualReturnPct / 100 / 12) monthlyAdd currentBalance)
       (project years annualReturnPct monthlyAdd currentBalance)"
    unfolding project_as_map by (simp add: list_all_iff projection_entry_ok_entry)
qed

text \<open>
  One year at 12 percent from 1000 with 100 a month: the balance 2395.0753... is
  recorded as 2395.08, the contributions as 2200 and the growth as 195.08.
\<close>

lemma compound_year:
  "compound (1 / 100) 100 12 1000 = 2395075331451666927273211 / 1000000000000000000000"
  by (simp add: compound_def eval_nat_numeral)

lemma project_example:
  "project 1 12 100 1000
     = [\<lparr>pr_year = 1, pr_balance = 239508 / 100, pr_contributions = 2200,
         pr_growth = 19508 / 100\<rparr>]"
  unfolding project_as_map
  by (simp add: projection_entry_def compound_year round_cents_def js_round_def)

section \<open>Percentile ordering of the Monte Carlo bands\<close>

lemma sim_loop_length:
  "1 \<le> year \<Longrightarrow>
   length (fst (sim_loop rnd years a s m year bp results))
     = length results + (Suc (nat \<lfloor>years\<rfloor>) - year)"
proof (induction rnd years a s m year bp results rule: sim_loop.induct)
  case (1 rnd years a s m year bp results)
  show ?case
  proof (cases "real year \<le> years")
    case False
    have "\<not> year \<le> nat \<lfloor>years\<rfloor>"
    proof
      assume "year \<le> nat \<lfloor>years\<rfloor>"
      with 1(2) have "int year \<le> \<lfloor>years\<rfloor>" by linarith
      then have "real year \<le> years" by (simp add: le_floor_iff)
      with False show False by simp
    qed
    then have "Suc (nat \<lfloor>years\<rfloor>) - year = 0" by simp
    moreover have "sim_loop rnd years a s m year bp results = (results, snd bp)"
      by (subst sim_loop.simps) (simp only: False if_False)
    ultimately show ?thesis by simp
  next
    case True
    then have le: "year \<le> nat \<lfloor>years\<rfloor>" by (rule nat_le_floor)
    obtain bal pos where bp': "(mc_month rnd a s m ^^ 12) bp = (bal, pos)"
      by (cases "(mc_month rnd a s m ^^ 12) bp")
    have IH: "length (fst (sim_loop rnd years a s m (year + 1) (bal, pos)
                 (results @ [round_cents bal])))
        = length (results @ [round_cents bal]) + (Suc (nat \<lfloor>years\<rfloor>) - (year + 1))"
      by (rule 1(1)[OF True bp'[symmetric]]) simp
    have "sim_loop rnd years a s m year bp results
        = sim_loop rnd years a s m (year + 1) (bal, pos) (results @ [round_cents bal])"
      by (subst sim_loop.simps) (simp only: True if_True bp' prod.case)
    then show ?thesis
      using IH le by simp
  qed
qed

lemma runSimulation_length:
  "length (fst (runSimulation rnd years cb ma a s pos)) = nat \<lfloor>years\<rfloor>"
  using sim_loop_length [of 1 rnd years a s ma "(cb, pos)" "[]"]
  by (simp add: runSimulation_def)

lemma runs_step_ok:
  assumes "runs_ok k (nat \<lfloor>years\<rfloor>) (conservativeRuns rs)"
    "runs_ok k (nat \<lfloor>years\<rfloor>) (moderateRuns rs)"
    "runs_ok k (nat \<lfloor>years\<rfloor>) (aggressiveRuns rs)"
  shows "runs_ok (Suc k) (nat \<lfloor>years\<rfloor>) (conservativeRuns (runs_step rnd years cb ma rs))
       \<and> runs_ok (Suc k) (nat \<lfloor>years\<rfloor>) (moderateRuns (runs_step rnd years cb ma rs))
       \<and> runs_ok (Suc k) (nat \<lfloor>years\<rfloor>) (aggressiveRuns (runs_step rnd years cb ma rs))"
proof -
  obtain c p1 where c: "runSimulation rnd years cb ma 0.05 0.08 (rnd_pos rs) = (c, p1)"
    by (cases "runSimulation rnd years cb ma 0.05 0.08 (rnd_pos rs)")
  obtain m p2 where m: "runSimulation rnd years cb ma 0.07 0.12 p1 = (m, p2)"
    by (cases "runSimulation rnd years cb ma 0.07 0.12 p1")
  obtain a p3 where a: "runSimulation rnd years cb ma 0.10 0.18 p2 = (a, p3)"
    by (cases "runSimulation rnd years cb ma 0.10 0.18 p2")
  have "length c = nat \<lfloor>years\<rfloor>"
    using runSimulation_length [of rnd years cb ma "0.05" "0.08" "rnd_pos rs"] c
    by (metis fst_conv)
  moreover have "length m = nat \<lfloor>years\<rfloor>"
    using runSimulation_length [of rnd years cb ma "0.07" "0.12" p1] m by (metis fst_conv)
  moreover have "length a = nat \<lfloor>years\<rfloor>"
    using runSimulation_length [of rnd years cb ma "0.10" "0.18" p2] a by (metis fst_conv)
  moreover have "runs_step rnd years cb ma rs =
      \<lparr>conservativeRuns = conservativeRuns rs @ [c], moderateRuns = moderateRuns rs @ [m],
       aggressiveRuns = aggressiveRuns rs @ [a], rnd_pos = p3\<rparr>"
    by (simp only: runs_step_def c m a prod.case)
  ultimately show ?thesis
    using assms by (simp add: runs_ok_def)
qed

lemma all_runs_funpow_ok:
  "runs_ok k (nat \<lfloor>years\<rfloor>) (conservativeRuns ((runs_step rnd years cb ma ^^ k)
       \<lparr>conservativeRuns = [], moderateRuns = [], aggressiveRuns = [], rnd_pos = 0\<rparr>))
 \<and> runs_ok k (nat \<lfloor>years\<rfloor>) (moderateRuns ((runs_step rnd years cb ma ^^ k)
       \<lparr>conservativeRuns = [], moderateRuns = [], aggressiveRuns = [], rnd_pos = 0\<rparr>))
 \<and> runs_ok k (nat \<lfloor>years\<rfloor>) (aggressiveRuns ((runs_step rnd years cb ma ^^ k)
       \<lparr>conservativeRuns = [], moderateRuns = [], aggressiveRuns = [], rnd_pos = 0\<rparr>))"
proof (induction k)
  case 0
  show ?case by (simp add: runs_ok_def)
next
  case (Suc k)
  then show ?case
    using runs_step_ok by simp
qed

lemma all_runs_ok:
  "runs_ok 50 (nat \<lfloor>years\<rfloor>) (conservativeRuns (all_runs rnd years cb ma))"
  "runs_ok 50 (nat \<lfloor>years\<rfloor>) (moderateRuns (all_runs rnd years cb ma))"
  "runs_ok 50 (nat \<lfloor>years\<rfloor>) (aggressiveRuns (all_runs rnd years cb ma))"
  using all_runs_funpow_ok [of 50 years rnd cb ma] by (simp_all add: all_runs_def)

lemma js_sort_numbers_defined:
  "js_sort_numbers (map Some xs) = map Some (sort xs)"
  by (simp add: js_sort_numbers_def filter_map o_def)

lemma column_defined:
  "list_all (\<lambda>r. length r = n) runs \<Longrightarrow> y < n \<Longrightarrow>
   map (\<lambda>r. js_index r (int y)) runs = map Some (map (\<lambda>r. r ! y) runs)"
  by (induction runs) (simp_all add: js_index_def)

lemma getPercentile_nth:
  assumes "runs_ok 50 n runs" "y < n"
  shows "getPercentile runs y 0.1 = Some (sort (map (\<lambda>r. r ! y) runs) ! 5)"
    and "getPercentile runs y 0.5 = Some (sort (map (\<lambda>r. r ! y) runs) ! 25)"
    and "getPercentile runs y 0.9 = Some (sort (map (\<lambda>r. r ! y) runs) ! 45)"
proof -
  have col: "map (\<lambda>r. js_index r (int y)) runs = map Some (map (\<lambda>r. r ! y) runs)"
    by (rule column_defined [of n]) (use assms in \<open>simp_all add: runs_ok_def\<close>)
  have len: "length runs = 50" using assms by (simp add: runs_ok_def)
  have gp: "getPercentile runs y pct =
      (case js_index (map Some (sort (map (\<lambda>r. r ! y) runs))) \<lfloor>50 * pct\<rfloor> of
         None \<Rightarrow> None | Some v \<Rightarrow> v)" for pct
    unfolding getPercentile_def col js_sort_numbers_defined by (simp add: len Let_def)
  show "getPercentile runs y 0.1 = Some (sort (map (\<lambda>r. r ! y) runs) ! 5)"
    unfolding gp by (simp add: js_index_def len)
  show "getPercentile runs y 0.5 = Some (sort (map (\<lambda>r. r ! y) runs) ! 25)"
    unfolding gp by (simp add: js_index_def len)
  show "getPercentile runs y 0.9 = Some (sort (map (\<lambda>r. r ! y) runs) ! 45)"
    unfolding gp by (simp add: js_index_def len)
qed

lemma band_ordered_band:
  assumes "runs_ok 50 n runs" "y < n"
  shows "band_ordered (band runs y)"
proof -
  let ?v = "sort (map (\<lambda>r. r ! y) runs)"
  have len: "length ?v = 50" using assms by (simp add: runs_ok_def)
  have "sorted ?v" by simp
  then have "?v ! 5 \<le> ?v ! 25" "?v ! 25 \<le> ?v ! 45"
    using len by (simp_all add: sorted_nth_mono)
  then show ?thesis
    using getPercentile_nth [OF assms] by (simp add: band_ordered_def band_def)
qed

lemma mc_loop_entries:
  "e \<in> set (mc_loop years rs y acc) \<Longrightarrow>
   e \<in> set acc \<or> (\<exists>y'. real y' < years \<and> e = mc_entry rs y')"
proof (induction years rs y acc rule: mc_loop.induct)
  case (1 years rs y acc)
  show ?case
  proof (cases "real y < years")
    case False
    with 1(2) show ?thesis
      by (subst (asm) mc_loop.simps) simp
  next
    case True
    have "mc_loop years rs y acc = mc_loop years rs (y + 1) (acc @ [mc_entry rs y])"
      by (subst mc_loop.simps) (simp only: True if_True mc_entry_def)
    with 1(2) have "e \<in> set (mc_loop years rs (y + 1) (acc @ [mc_entry rs y]))" by simp
    then have "e \<in> set (acc @ [mc_entry rs y]) \<or> (\<exists>y'. real y' < years \<and> e = mc_entry rs y')"
      using 1(1)[OF True] by (simp only: mc_entry_def)
    with True show ?thesis by auto
  qed
qed

lemma monteCarlo_one_year:
  "monteCarlo rnd 1 currentBalance monthlyAdd
     = [mc_entry (all_runs rnd 1 currentBalance monthlyAdd) 0]"
  by (simp add: monteCarlo_def mc_entry_def
        mc_loop.simps [of _ _ 0] mc_loop.simps [of _ _ "Suc 0"])

text \<open>
  For a whole number of years, whatever the initial balance, the monthly contribution
  and the random draws, every entry of the Monte Carlo result has, in each of the three
  profiles, defined percentiles with \<open>low \<le> mid \<le> high\<close>.
\<close>

theorem monteCarlo_percentiles_ordered:
  assumes "e \<in> set (monteCarlo rnd (real n) currentBalance monthlyAdd)"
  shows "band_ordered (mc_conservative e) \<and> band_ordered (mc_moderate e)
       \<and> band_ordered (mc_aggressive e)"
proof -
  let ?rs = "all_runs rnd (real n) currentBalance monthlyAdd"
  from assms obtain y where y: "y < n" "e = mc_entry ?rs y"
    using mc_loop_entries [of e "real n" ?rs 0 "[]"] by (auto simp: monteCarlo_def)
  have ok: "runs_ok 50 n (conservativeRuns ?rs)" "runs_ok 50 n (moderateRuns ?rs)"
    "runs_ok 50 n (aggressiveRuns ?rs)"
    using all_runs_ok [of "real n" rnd currentBalance monthlyAdd] by simp_all
  show ?thesis
    using band_ordered_band [OF ok(1) y(1)] band_ordered_band [OF ok(2) y(1)]
      band_ordered_band [OF ok(3) y(1)]
    by (simp add: y(2) mc_entry_def)
qed

theorem monteCarlo_percentiles_ordered_witness:
  "hd (monteCarlo (\<lambda>p. 1 / 2) (real (1::nat)) 1000 100)
     \<in> set (monteCarlo (\<lambda>p. 1 / 2) (real (1::nat)) 1000 100)
   \<and> band_ordered (mc_conservative (hd (monteCarlo (\<lambda>p. 1 / 2) (real (1::nat)) 1000 100)))
   \<and> band_ordered (mc_moderate (hd (monteCarlo (\<lambda>p. 1 / 2) (real (1::nat)) 1000 100)))
   \<and> band_ordered (mc_aggressive (hd (monteCarlo (\<lambda>p. 1 / 2) (real (1::nat)) 1000 100)))"
proof -
  have mem: "hd (monteCarlo (\<lambda>p. 1 / 2) (real (1::nat)) 1000 100)
     \<in> set (monteCarlo (\<lambda>p. 1 / 2) (real (1::nat)) 1000 100)"
    by (simp add: monteCarlo_one_year)
  show ?thesis
    using mem monteCarlo_percentiles_ordered [OF mem] by simp
qed

lemma column_undefined:
  "list_all (\<lambda>r. length r = n) runs \<Longrightarrow> n \<le> y \<Longrightarrow>
   map (\<lambda>r. js_index r (int y)) runs = replicate (length runs) None"
  by (induction runs) (simp_all add: js_index_def)

lemma getPercentile_undefined:
  assumes "runs_ok 50 n runs" "n \<le> y"
  shows "getPercentile runs y pct = None"
proof -
  have col: "map (\<lambda>r. js_index r (int y)) runs = replicate (length runs) None"
    by (rule column_undefined [of n]) (use assms in \<open>simp_all add: runs_ok_def\<close>)
  have srt: "js_sort_numbers (replicate k None) = replicate k None" for k
    by (simp add: js_sort_numbers_def)
  have idx: "(case js_index (replicate k (None :: real option)) i of
               None \<Rightarrow> None | Some v \<Rightarrow> v) = None" for k i
  proof (cases "0 \<le> i \<and> i < int k")
    case True
    then have "nat i < k" by linarith
    then have "replicate k (None :: real option) ! nat i = None" by (rule nth_replicate)
    then show ?thesis using True by (simp add: js_index_def)
  next
    case False
    then show ?thesis by (auto simp: js_index_def)
  qed
  show ?thesis
    unfolding getPercentile_def col srt Let_def length_replicate by (rule idx)
qed

lemma monteCarlo_fractional_years:
  "monteCarlo rnd (3 / 2) currentBalance monthlyAdd
     = [mc_entry (all_runs rnd (3 / 2) currentBalance monthlyAdd) 0,
        mc_entry (all_runs rnd (3 / 2) currentBalance monthlyAdd) 1]"
  by (simp add: monteCarlo_def mc_entry_def mc_loop.simps [of _ _ 0]
        mc_loop.simps [of _ _ "Suc 0"] mc_loop.simps [of _ _ "Suc (Suc 0)"])

lemma fractional_years_band:
  "mc_conservative (mc_entry (all_runs rnd (3 / 2) currentBalance monthlyAdd) 1)
     = \<lparr>b_low = None, b_mid = None, b_high = None\<rparr>"
proof -
  have "nat \<lfloor>3 / 2 :: real\<rfloor> = 1" by simp
  then have "runs_ok 50 1 (conservativeRuns (all_runs rnd (3 / 2) currentBalance monthlyAdd))"
    using all_runs_ok(1) [of "3 / 2" rnd currentBalance monthlyAdd] by simp
  then show ?thesis
    by (simp add: mc_entry_def band_def getPercentile_undefined)
qed

text \<open>
  C8 asks that every entry of the Monte Carlo result has \<open>low \<le> mid \<le> high\<close> in each
  profile, for every \<open>years\<close> between 1 and 50. The handler clamps \<open>years\<close> to
  that interval but does not round it. For \<open>years = 1.5\<close> every run has one entry,
  for year 1, while the last loop runs for \<open>y = 0\<close> and \<open>y = 1\<close>: the entry of
  year 2 reads past the end of all 50 runs, its percentiles are \<open>undefined\<close>, and it
  is not ordered, whatever the balance, the contribution and the draws.
\<close>

theorem monteCarlo_fractional_years_unordered:
  "length (monteCarlo rnd (3 / 2) currentBalance monthlyAdd) = 2
   \<and> mc_year (monteCarlo rnd (3 / 2) currentBalance monthlyAdd ! 1) = 2
   \<and> mc_conservative (monteCarlo rnd (3 / 2) currentBalance monthlyAdd ! 1)
       = \<lparr>b_low = None, b_mid = None, b_high = None\<rparr>
   \<and> \<not> band_ordered (mc_conservative (monteCarlo rnd (3 / 2) currentBalance monthlyAdd ! 1))"
proof -
  let ?rs = "all_runs rnd (3 / 2) currentBalance monthlyAdd"
  let ?mc = "monteCarlo rnd (3 / 2) currentBalance monthlyAdd"
  have mc: "?mc = [mc_entry ?rs 0, mc_entry ?rs 1]"
    by (rule monteCarlo_fractional_years)
  have l: "length ?mc = 2" unfolding mc by simp
  have e: "?mc ! 1 = mc_entry ?rs 1" unfolding mc by simp
  have y: "mc_year (?mc ! 1) = 2" unfolding e by (simp add: mc_entry_def)
  have b: "mc_conservative (?mc ! 1) = \<lparr>b_low = None, b_mid = None, b_high = None\<rparr>"
    unfolding e by (rule fractional_years_band)
  have n: "\<not> band_ordered (mc_conservative (?mc ! 1))"
    unfolding b by (simp add: band_ordered_def)
  from l y b n show ?thesis by (intro conjI)
qed

section \<open>The cash-flow forecast, day by day\<close>





lemma forecast_scenario:
  "map cf_projectedBalance (forecastCashFlow cal31 1000 [pay] [rent] 16)
     = [3000, 3000, 3000, 3000, 3000, 3000, 3000, 3000, 3000, 3000, 3000, 3000, 3000, 3000,
        2500, 2500]"
  "map cf_label (forecastCashFlow cal31 1000 [pay] [rent] 16)
     = [Some ''+Pay'', None, None, None, None, None, None, None, None, None, None, None, None,
        None, Some ''-Rent'', None]"
  by code_simp+







section \<open>Invariants of the payoff loop\<close>

lemma foldl_add_sum_list: "foldl (\<lambda>s x. s + f x) a xs = a + sum_list (map f xs)"
  for a :: real
  by (induction xs arbitrary: a) simp_all

lemma payoff_loop_invariant:
  assumes "I st"
    and "\<And>s. I s \<Longrightarrow> s_month s < maxMonths \<Longrightarrow> remaining_debts srt (s_balances s) \<noteq> []
           \<Longrightarrow> I (payoff_month srt x s)"
  shows "I (payoff_loop srt x st)"
  using assms
proof (induction srt x st rule: payoff_loop.induct)
  case (1 srt x st)
  show ?case
  proof (cases "s_month st < maxMonths \<and> remaining_debts srt (s_balances st) \<noteq> []")
    case True
    have "I (payoff_month srt x st)"
      by (rule 1(3)) (use True 1(2) in simp_all)
    then have "I (payoff_loop srt x (payoff_month srt x st))"
      using True 1(1) 1(3) by blast
    then show ?thesis
      using True by (subst payoff_loop.simps) simp
  next
    case False
    then show ?thesis
      using 1(2) by (subst payoff_loop.simps) auto
  qed
qed

text \<open>The components of the state after the third pass.\<close>

lemma apply_payments_snoc:
  "apply_payments month bal order (ms @ [e])
     = apply_entry month (apply_payments month bal order ms) e"
  by (simp add: apply_payments_def)

lemma apply_payments_Nil:
  "apply_payments month bal order []
     = \<lparr>a_balances = bal, a_payoffOrder = order, a_totalPayment = 0,
        a_totalInterest = 0, a_debts = []\<rparr>"
  by (simp add: apply_payments_def)

lemma apply_entry_sel:
  "e_id e \<noteq> proto_key \<Longrightarrow>
     a_balances (apply_entry month a e) = (a_balances a)(e_id e := new_balance e)"
  "a_totalPayment (apply_entry month a e) = a_totalPayment a + e_payment e"
  "a_totalInterest (apply_entry month a e) = a_totalInterest a + e_interest e"
  "e_id e \<noteq> proto_key \<Longrightarrow>
     a_debts (apply_entry month a e) = a_debts a @ [e\<lparr>e_balance := new_balance e\<rparr>]"
  by (simp_all add: apply_entry_def Let_def new_balance_def set_balance_def)

lemma apply_payments_totalPayment:
  "a_totalPayment (apply_payments month bal order ms) = sum_list (map e_payment ms)"
  by (induction ms rule: rev_induct)
     (simp_all add: apply_payments_snoc apply_entry_sel apply_payments_Nil)

lemma apply_payments_totalInterest:
  "a_totalInterest (apply_payments month bal order ms) = sum_list (map e_interest ms)"
  by (induction ms rule: rev_induct)
     (simp_all add: apply_payments_snoc apply_entry_sel apply_payments_Nil)

lemma apply_payments_debts:
  "list_all (\<lambda>e. e_id e \<noteq> proto_key) ms \<Longrightarrow>
   a_debts (apply_payments month bal order ms)
     = map (\<lambda>e. e\<lparr>e_balance := new_balance e\<rparr>) ms"
  by (induction ms rule: rev_induct)
     (simp_all add: apply_payments_snoc apply_entry_sel apply_payments_Nil)

lemma apply_payments_balances:
  "list_all (\<lambda>e. e_id e \<noteq> proto_key) ms \<Longrightarrow>
   a_balances (apply_payments month bal order ms) = apply_bal bal ms"
  by (induction ms rule: rev_induct)
     (simp_all add: apply_payments_snoc apply_entry_sel apply_payments_Nil apply_bal_def)

text \<open>No entry of a month has the id \<open>__proto__\<close>.\<close>

lemma add_extra_list_all:
  assumes "list_all P ms"
    and "\<And>e. P e \<Longrightarrow> P (e\<lparr>e_payment := e_payment e + y, e_principal := e_principal e + y\<rparr>)"
  shows "list_all P (add_extra i y ms)"
  using assms(1) by (induction ms) (simp_all add: assms(2))

lemma second_pass_list_all:
  assumes "list_all P ms"
    and "\<And>e y. P e \<Longrightarrow> 0 < y
           \<Longrightarrow> P (e\<lparr>e_payment := e_payment e + y, e_principal := e_principal e + y\<rparr>)"
  shows "list_all P (second_pass srt bal X ms)"
proof (induction srt)
  case Nil
  show ?case using assms(1) by simp
next
  case (Cons d ds)
  show ?case
  proof (cases "at_most_cent bal (d_id d) \<or> X \<le> 0")
    case True
    then show ?thesis using Cons by simp
  next
    case False
    show ?thesis
    proof (cases "find (\<lambda>m. e_id m = d_id d) ms")
      case None
      then show ?thesis using False Cons by simp
    next
      case (Some entry)
      show ?thesis
        using False Some assms(1)
        by (simp add: Let_def add_extra_list_all assms(2))
    qed
  qed
qed

lemma month_entries_no_proto:
  "list_all (\<lambda>e. e_id e \<noteq> proto_key) (month_entries srt x bal)"
  unfolding month_entries_def
  by (rule second_pass_list_all)
     (simp_all add: list_all_iff first_pass_def Let_def remaining_debts_def above_cent_def)

lemma payoff_month_sel:
  "s_balances (payoff_month srt x st) = apply_bal (s_balances st) (month_entries srt x (s_balances st))"
  "s_month (payoff_month srt x st) = s_month st + 1"
  "s_totalPaid (payoff_month srt x st)
     = s_totalPaid st + sum_list (map e_payment (month_entries srt x (s_balances st)))"
  "s_totalInterestPaid (payoff_month srt x st)
     = s_totalInterestPaid st + sum_list (map e_interest (month_entries srt x (s_balances st)))"
  "s_schedule (payoff_month srt x st) = s_schedule st @
     [\<lparr>m_month = s_month st + 1,
       m_debts = map (\<lambda>e. e\<lparr>e_balance := new_balance e\<rparr>) (month_entries srt x (s_balances st)),
       m_totalBalance = total_balance srt
          (apply_bal (s_balances st) (month_entries srt x (s_balances st))),
       m_totalPayment = sum_list (map e_payment (month_entries srt x (s_balances st))),
       m_totalInterest = sum_list (map e_interest (month_entries srt x (s_balances st)))\<rparr>]"
  "s_payoffOrder (payoff_month srt x st)
     = a_payoffOrder (apply_payments (s_month st + 1) (s_balances st) (s_payoffOrder st)
          (month_entries srt x (s_balances st)))"
  using month_entries_no_proto [of srt x "s_balances st"]
  by (simp_all add: payoff_month_def Let_def apply_payments_totalPayment
        apply_payments_totalInterest apply_payments_debts apply_payments_balances
        flip: month_entries_def)

lemma first_pass_pre:
  assumes "valid_debt d" "0 \<le> bal (d_id d)"
  shows "entry_pre (first_pass bal d)"
proof -
  have "0 \<le> bal (d_id d) * (d_rate d / 100 / 12)"
    using assms by (simp add: valid_debt_def)
  then show ?thesis
    using assms by (simp add: entry_pre_def first_pass_def Let_def valid_debt_def)
qed

lemma month_entries_pre:
  assumes "list_all valid_debt srt" "\<And>k. 0 \<le> bal k"
  shows "list_all entry_pre (month_entries srt x bal)"
  unfolding month_entries_def
proof (rule second_pass_list_all)
  show "list_all entry_pre (map (first_pass bal) (remaining_debts srt bal))"
    using assms by (auto simp: list_all_iff remaining_debts_def intro: first_pass_pre)
next
  fix e :: PayoffDebt and y :: real
  assume "entry_pre e" "0 < y"
  then show "entry_pre (e\<lparr>e_payment := e_payment e + y, e_principal := e_principal e + y\<rparr>)"
    by (simp add: entry_pre_def)
qed

lemma new_balance_nonneg: "0 \<le> new_balance e"
  by (simp add: new_balance_def)

lemma apply_bal_nonneg:
  "(\<And>k. 0 \<le> bal k) \<Longrightarrow> 0 \<le> apply_bal bal ms k"
  by (induction ms rule: rev_induct) (simp_all add: apply_bal_def new_balance_nonneg)

lemma total_balance_nonneg:
  "(\<And>k. 0 \<le> bal k) \<Longrightarrow> 0 \<le> total_balance srt bal"
  unfolding total_balance_def foldl_add_sum_list
  by (simp, rule sum_list_nonneg) auto

lemma init_balances_nonneg:
  "list_all valid_debt srt \<Longrightarrow> (\<And>k. 0 \<le> bal k) \<Longrightarrow> 0 \<le> init_balances srt bal k"
  by (induction srt arbitrary: bal) (simp_all add: valid_debt_def set_balance_def)

lemma payoff_month_nonneg:
  assumes "list_all valid_debt srt" "state_nonneg st"
  shows "state_nonneg (payoff_month srt x st)"
proof -
  let ?ms = "month_entries srt x (s_balances st)"
  have bal: "\<And>k. 0 \<le> s_balances st k" using assms(2) by (simp add: state_nonneg_def)
  have pre: "list_all entry_pre ?ms"
    using assms(1) bal by (rule month_entries_pre)
  have pay: "0 \<le> sum_list (map e_payment ?ms)"
    using pre by (intro sum_list_nonneg) (auto simp: list_all_iff entry_pre_def)
  have int: "0 \<le> sum_list (map e_interest ?ms)"
    using pre by (intro sum_list_nonneg) (auto simp: list_all_iff entry_pre_def)
  have ents: "list_all entry_nonneg (map (\<lambda>e. e\<lparr>e_balance := new_balance e\<rparr>) ?ms)"
    using pre by (auto simp: list_all_iff entry_pre_def entry_nonneg_def new_balance_nonneg)
  have bal': "\<And>k. 0 \<le> apply_bal (s_balances st) ?ms k"
    using bal by (rule apply_bal_nonneg)
  have tb: "0 \<le> total_balance srt (apply_bal (s_balances st) ?ms)"
    using bal' by (rule total_balance_nonneg)
  show ?thesis
    using assms(2) pay int ents bal' tb
    by (simp add: state_nonneg_def payoff_month_sel month_nonneg_def)
qed

lemma set_sort_debts: "set (sort_debts strategy debts) = set debts"
  by (cases strategy) (simp_all add: sort_debts_def)

lemma valid_sort_debts: "valid_debts debts \<Longrightarrow> list_all valid_debt (sort_debts strategy debts)"
  by (simp add: valid_debts_def list_all_iff set_sort_debts)

lemma calculatePayoff_sel:
  "r_months (calculatePayoff debts strategy x)
     = s_month (payoff_loop (sort_debts strategy debts) x (init_state (sort_debts strategy debts)))"
  "r_totalPaid (calculatePayoff debts strategy x)
     = s_totalPaid (payoff_loop (sort_debts strategy debts) x (init_state (sort_debts strategy debts)))"
  "r_totalInterest (calculatePayoff debts strategy x)
     = s_totalInterestPaid (payoff_loop (sort_debts strategy debts) x (init_state (sort_debts strategy debts)))"
  "r_schedule (calculatePayoff debts strategy x)
     = s_schedule (payoff_loop (sort_debts strategy debts) x (init_state (sort_debts strategy debts)))"
  "r_debtPayoffOrder (calculatePayoff debts strategy x)
     = s_payoffOrder (payoff_loop (sort_debts strategy debts) x (init_state (sort_debts strategy debts)))"
  by (simp_all add: calculatePayoff_def Let_def)

text \<open>
  C5, as amended: for valid debts every month of the schedule has non-negative
  \<open>totalBalance\<close>, \<open>totalPayment\<close> and \<open>totalInterest\<close>, every per-debt entry
  has non-negative \<open>balance\<close>, \<open>payment\<close> and \<open>interest\<close>, and
  \<open>totalPaid\<close> and \<open>totalInterest\<close> of the result are non-negative
  (\<open>months\<close> is a natural number). The \<open>principal\<close> of an entry is its payment
  minus its interest, and is negative when the payment does not cover the interest.
\<close>

theorem calculatePayoff_nonneg:
  assumes "valid_debts debts"
  shows "result_nonneg (calculatePayoff debts strategy extraMonthly)"
proof -
  let ?srt = "sort_debts strategy debts"
  have v: "list_all valid_debt ?srt" using assms by (rule valid_sort_debts)
  have "state_nonneg (init_state ?srt)"
    using v by (simp add: state_nonneg_def init_state_def init_balances_nonneg)
  then have "state_nonneg (payoff_loop ?srt extraMonthly (init_state ?srt))"
    by (rule payoff_loop_invariant) (rule payoff_month_nonneg [OF v])
  then show ?thesis
    by (simp add: result_nonneg_def state_nonneg_def calculatePayoff_sel)
qed

































text \<open>
  A debt with the id \<open>__proto__\<close> is not simulated: of \<open>dP\<close> (that id, balance
  30) and \<open>dQ\<close> (balance 20), both with a minimum payment of 10 and no interest,
  only \<open>dQ\<close> is paid, in two months, and the total balances are 10 and 0.
\<close>

lemma proto_debt_skipped:
  "r_months (calculatePayoff [dP, dQ] Avalanche 0) = 2
   \<and> map m_totalBalance (r_schedule (calculatePayoff [dP, dQ] Avalanche 0)) = [10, 0]
   \<and> map (\<lambda>m. map e_id (m_debts m)) (r_schedule (calculatePayoff [dP, dQ] Avalanche 0))
       = [[''q''], [''q'']]"
  by code_simp

lemma example_valid: "valid_debts [dA, dB, dC]"
  by (simp add: valid_debts_def valid_debt_def dA_def dB_def dC_def)


lemma example_principals:
  "map e_principal (m_debts (hd (r_schedule (calculatePayoff [dA, dB, dC] Snowball 5000))))
     = [101 / 100, 0, - 12]"
  by code_simp


text \<open>
  The principal can be negative: in the first month of the same run \<open>dC\<close> pays
  nothing and accrues 12 of interest, so its principal is -12.
\<close>

theorem negative_principal_counterexample:
  "valid_debts [dA, dB, dC] \<and> (0::real) \<le> 5000
   \<and> map e_principal (m_debts (hd (r_schedule (calculatePayoff [dA, dB, dC] Snowball 5000))))
       = [101 / 100, 0, - 12]
   \<and> (- 12 :: real) < 0"
  using example_valid example_principals by simp

theorem calculatePayoff_nonneg_witness:
  "valid_debts [dA, dB, dC]
   \<and> result_nonneg (calculatePayoff [dA, dB, dC] Snowball 5000)"
  using example_valid calculatePayoff_nonneg [OF example_valid, of Snowball 5000] by simp

section \<open>The schedule and the payoff order\<close>

lemma find_None_id: "(find (\<lambda>p. p_id p = k) order = None) = (k \<notin> p_id ` set order)"
  by (auto simp: find_None_iff)

lemma apply_entry_order:
  "e_id e \<noteq> proto_key \<Longrightarrow>
   a_payoffOrder (apply_entry month a e)
     = (if new_balance e \<le> 0.01 \<and> e_id e \<notin> p_id ` set (a_payoffOrder a)
        then a_payoffOrder a @ [\<lparr>p_id = e_id e, p_name = e_name e, p_payoffMonth = month\<rparr>]
        else a_payoffOrder a)"
  by (simp add: apply_entry_def Let_def new_balance_def find_None_id set_balance_def
        at_most_cent_def)

lemma apply_payments_order:
  assumes "list_all (\<lambda>e. e_id e \<noteq> proto_key) ms"
  shows "\<exists>new. a_payoffOrder (apply_payments month bal order0 ms) = order0 @ new
     \<and> (\<forall>p \<in> set new. p_payoffMonth p = month \<and> p_id p \<notin> p_id ` set order0
           \<and> (\<exists>e \<in> set ms. e_id e = p_id p \<and> new_balance e \<le> 0.01))
     \<and> distinct (map p_id new)
     \<and> (\<forall>e \<in> set ms. new_balance e \<le> 0.01 \<longrightarrow> e_id e \<in> p_id ` set (order0 @ new))"
  using assms
proof (induction ms rule: rev_induct)
  case Nil
  show ?case by (simp add: apply_payments_Nil)
next
  case (snoc e ms)
  have np: "list_all (\<lambda>e. e_id e \<noteq> proto_key) ms" "e_id e \<noteq> proto_key"
    using snoc.prems by simp_all
  from snoc.IH [OF np(1)] obtain new where new:
    "a_payoffOrder (apply_payments month bal order0 ms) = order0 @ new"
    "\<forall>p \<in> set new. p_payoffMonth p = month \<and> p_id p \<notin> p_id ` set order0
           \<and> (\<exists>e \<in> set ms. e_id e = p_id p \<and> new_balance e \<le> 0.01)"
    "distinct (map p_id new)"
    "\<forall>e \<in> set ms. new_balance e \<le> 0.01 \<longrightarrow> e_id e \<in> p_id ` set (order0 @ new)"
    by blast
  let ?p = "\<lparr>p_id = e_id e, p_name = e_name e, p_payoffMonth = month\<rparr>"
  show ?case
  proof (cases "new_balance e \<le> 0.01 \<and> e_id e \<notin> p_id ` set (order0 @ new)")
    case True
    have eq: "a_payoffOrder (apply_payments month bal order0 (ms @ [e])) = order0 @ (new @ [?p])"
      using True by (simp add: apply_payments_snoc apply_entry_order [OF np(2)] new(1))
    have a: "\<forall>p \<in> set (new @ [?p]). p_payoffMonth p = month \<and> p_id p \<notin> p_id ` set order0
           \<and> (\<exists>e' \<in> set (ms @ [e]). e_id e' = p_id p \<and> new_balance e' \<le> 0.01)"
      using new(2) True by auto
    have b: "distinct (map p_id (new @ [?p]))"
      using new(3) True by auto
    have c: "\<forall>e' \<in> set (ms @ [e]). new_balance e' \<le> 0.01
               \<longrightarrow> e_id e' \<in> p_id ` set (order0 @ (new @ [?p]))"
      using new(4) by auto
    show ?thesis using eq a b c by blast
  next
    case False
    have eq: "a_payoffOrder (apply_payments month bal order0 (ms @ [e])) = order0 @ new"
      using False by (simp add: apply_payments_snoc apply_entry_order [OF np(2)] new(1))
    have a: "\<forall>p \<in> set new. p_payoffMonth p = month \<and> p_id p \<notin> p_id ` set order0
           \<and> (\<exists>e' \<in> set (ms @ [e]). e_id e' = p_id p \<and> new_balance e' \<le> 0.01)"
      using new(2) by auto
    have c: "\<forall>e' \<in> set (ms @ [e]). new_balance e' \<le> 0.01
               \<longrightarrow> e_id e' \<in> p_id ` set (order0 @ new)"
      using new(4) False by auto
    show ?thesis using eq a new(3) c by blast
  qed
qed

lemma paid_in_new_month:
  "paid_in k \<lparr>m_month = n, m_debts = map (\<lambda>e. e\<lparr>e_balance := new_balance e\<rparr>) ms,
       m_totalBalance = tb, m_totalPayment = tp, m_totalInterest = ti\<rparr>
     = (\<exists>e \<in> set ms. e_id e = k \<and> new_balance e \<le> 0.01)"
  by (auto simp: paid_in_def list_ex_iff)

lemma first_paid_snoc:
  "first_paid (sch @ [m]) k =
     (case first_paid sch k of Some n \<Rightarrow> Some n
      | None \<Rightarrow> if paid_in k m then Some (m_month m) else None)"
  by (induction sch) (simp_all add: first_paid_def)

lemma first_paid_None:
  assumes "list_all (\<lambda>m. list_all (\<lambda>e. e_balance e \<le> 0.01 \<longrightarrow> e_id e \<in> ids) (m_debts m)) sch"
    and "k \<notin> ids"
  shows "first_paid sch k = None"
  using assms by (auto simp: first_paid_def find_None_iff paid_in_def list_ex_iff list_all_iff)

lemma sorted_const_map:
  "\<forall>p \<in> set ps. f p = (c::nat) \<Longrightarrow> sorted (map f ps)"
  by (induction ps) auto

lemma payoff_month_order:
  assumes "order_state st"
  shows "order_state (payoff_month srt x st)"
proof -
  define ms where "ms = month_entries srt x (s_balances st)"
  define M where "M = s_month st + 1"
  define rec where "rec = \<lparr>m_month = M,
       m_debts = map (\<lambda>e. e\<lparr>e_balance := new_balance e\<rparr>) ms,
       m_totalBalance = total_balance srt (apply_bal (s_balances st) ms),
       m_totalPayment = sum_list (map e_payment ms),
       m_totalInterest = sum_list (map e_interest ms)\<rparr>"
  define ord where "ord = s_payoffOrder st"
  define sch where "sch = s_schedule st"
  have rec_month: "m_month rec = M" by (simp add: rec_def)
  have rec_paid: "paid_in k rec = (\<exists>e \<in> set ms. e_id e = k \<and> new_balance e \<le> 0.01)" for k
    unfolding rec_def by (rule paid_in_new_month)
  have rec_debts: "m_debts rec = map (\<lambda>e. e\<lparr>e_balance := new_balance e\<rparr>) ms"
    by (simp add: rec_def)
  have ord': "s_payoffOrder (payoff_month srt x st)
      = a_payoffOrder (apply_payments M (s_balances st) ord ms)"
    by (simp only: payoff_month_sel(6) ms_def M_def ord_def)
  obtain new where new:
    "s_payoffOrder (payoff_month srt x st) = ord @ new"
    "\<forall>p \<in> set new. p_payoffMonth p = M \<and> p_id p \<notin> p_id ` set ord
           \<and> (\<exists>e \<in> set ms. e_id e = p_id p \<and> new_balance e \<le> 0.01)"
    "distinct (map p_id new)"
    "\<forall>e \<in> set ms. new_balance e \<le> 0.01 \<longrightarrow> e_id e \<in> p_id ` set (ord @ new)"
    using apply_payments_order [of ms M "s_balances st" ord] month_entries_no_proto [of srt x "s_balances st"]
    unfolding ord' ms_def by blast
  have sch': "s_schedule (payoff_month srt x st) = sch @ [rec]"
    by (simp only: payoff_month_sel(5) ms_def M_def rec_def sch_def)
  have month': "s_month (payoff_month srt x st) = M"
    by (simp only: payoff_month_sel(2) M_def)
  have st: "length sch = s_month st" "map m_month sch = [1 ..< Suc (s_month st)]"
    "distinct (map p_id ord)"
    "\<forall>p \<in> set ord. first_paid sch (p_id p) = Some (p_payoffMonth p)
        \<and> p_payoffMonth p \<le> s_month st"
    "sorted (map p_payoffMonth ord)"
    "list_all (\<lambda>m. list_all (\<lambda>e. e_balance e \<le> 0.01 \<longrightarrow> e_id e \<in> p_id ` set ord)
                     (m_debts m)) sch"
    using assms by (simp_all add: order_state_def list_all_iff ord_def sch_def)
  have c1: "length (sch @ [rec]) = M" using st(1) by (simp add: M_def)
  have c2: "map m_month (sch @ [rec]) = [1 ..< Suc M]"
    using st(2) rec_month by (simp add: M_def)
  have fresh: "p_id q \<noteq> p_id p" if "p \<in> set new" "q \<in> set ord" for p q
  proof
    assume "p_id q = p_id p"
    then have "p_id p \<in> p_id ` set ord" using that(2) by (metis imageI)
    moreover have "p_id p \<notin> p_id ` set ord" using new(2) that(1) by simp
    ultimately show False by simp
  qed
  have disj: "set (map p_id ord) \<inter> set (map p_id new) = {}"
  proof (rule ccontr)
    assume "set (map p_id ord) \<inter> set (map p_id new) \<noteq> {}"
    then obtain k where "k \<in> set (map p_id ord)" "k \<in> set (map p_id new)" by auto
    then obtain q p where "q \<in> set ord" "p_id q = k" "p \<in> set new" "p_id p = k" by auto
    then show False using fresh by metis
  qed
  have c3: "distinct (map p_id (ord @ new))"
    using st(3) new(3) disj by simp
  have c4old: "first_paid (sch @ [rec]) (p_id p) = Some (p_payoffMonth p)
      \<and> p_payoffMonth p \<le> M" if "p \<in> set ord" for p
  proof -
    have "first_paid sch (p_id p) = Some (p_payoffMonth p)" "p_payoffMonth p \<le> s_month st"
      using st(4) that by auto
    then show ?thesis by (simp add: first_paid_snoc M_def)
  qed
  have c4new: "first_paid (sch @ [rec]) (p_id p) = Some (p_payoffMonth p)
      \<and> p_payoffMonth p \<le> M" if "p \<in> set new" for p
  proof -
    have p: "p_payoffMonth p = M" "p_id p \<notin> p_id ` set ord"
      "\<exists>e \<in> set ms. e_id e = p_id p \<and> new_balance e \<le> 0.01"
      using new(2) that by auto
    have "first_paid sch (p_id p) = None"
      using st(6) p(2) by (rule first_paid_None)
    moreover have "paid_in (p_id p) rec"
      using p(3) by (simp only: rec_paid)
    ultimately show ?thesis
      using p(1) rec_month by (simp add: first_paid_snoc)
  qed
  have c4: "list_all (\<lambda>p. first_paid (sch @ [rec]) (p_id p) = Some (p_payoffMonth p)
      \<and> p_payoffMonth p \<le> M) (ord @ new)"
    unfolding list_all_iff using c4old c4new by auto
  have c5: "sorted (map p_payoffMonth (ord @ new))"
  proof -
    have "sorted (map p_payoffMonth new)"
      using new(2) by (intro sorted_const_map [of new p_payoffMonth M]) simp
    moreover have "\<forall>a \<in> set ord. \<forall>b \<in> set new. p_payoffMonth a \<le> p_payoffMonth b"
    proof (intro ballI)
      fix a b
      assume "a \<in> set ord" "b \<in> set new"
      then have "p_payoffMonth a \<le> s_month st" "p_payoffMonth b = M"
        using st(4) new(2) by auto
      then show "p_payoffMonth a \<le> p_payoffMonth b" by (simp add: M_def)
    qed
    ultimately show ?thesis
      using st(5) by (simp add: sorted_append)
  qed
  have c6old: "list_all (\<lambda>m. list_all (\<lambda>e. e_balance e \<le> 0.01 \<longrightarrow> e_id e \<in> p_id ` set (ord @ new))
                     (m_debts m)) sch"
    using st(6) unfolding list_all_iff by auto
  have c6new: "list_all (\<lambda>e. e_balance e \<le> 0.01 \<longrightarrow> e_id e \<in> p_id ` set (ord @ new)) (m_debts rec)"
    unfolding rec_debts list_all_iff using new(4) by auto
  have c6: "list_all (\<lambda>m. list_all (\<lambda>e. e_balance e \<le> 0.01 \<longrightarrow> e_id e \<in> p_id ` set (ord @ new))
                     (m_debts m)) (sch @ [rec])"
    using c6old c6new by simp
  show ?thesis
    unfolding order_state_def sch' new(1) month'
    by (intro conjI c1 c2 c3 c4 c5 c6)
qed

lemma order_state_result:
  assumes "order_state st"
  shows "length (s_schedule st) = s_month st"
    and "map m_month (s_schedule st) = [1 ..< Suc (s_month st)]"
    and "distinct (map p_id (s_payoffOrder st))"
    and "list_all (\<lambda>p. first_paid (s_schedule st) (p_id p) = Some (p_payoffMonth p))
           (s_payoffOrder st)"
    and "sorted (map p_payoffMonth (s_payoffOrder st))"
proof -
  show "length (s_schedule st) = s_month st"
    and "map m_month (s_schedule st) = [1 ..< Suc (s_month st)]"
    and "distinct (map p_id (s_payoffOrder st))"
    and "sorted (map p_payoffMonth (s_payoffOrder st))"
    using assms unfolding order_state_def by blast+
  have "list_all (\<lambda>p. first_paid (s_schedule st) (p_id p) = Some (p_payoffMonth p)
                     \<and> p_payoffMonth p \<le> s_month st) (s_payoffOrder st)"
    using assms unfolding order_state_def by blast
  then show "list_all (\<lambda>p. first_paid (s_schedule st) (p_id p) = Some (p_payoffMonth p))
           (s_payoffOrder st)"
    unfolding list_all_iff by blast
qed

text \<open>
  C10: for every debt list, strategy and extra payment, the schedule has exactly
  \<open>months\<close> entries, numbered 1, 2, ..., \<open>months\<close> in order; the ids of
  \<open>debtPayoffOrder\<close> are pairwise distinct; the \<open>payoffMonth\<close> of each of its
  entries is the first month in which the balance of that debt is at most 0.01 after the
  month's payment; and the \<open>payoffMonth\<close> values are non-decreasing along the list.
\<close>

theorem calculatePayoff_payoff_order:
  "payoff_order_ok (calculatePayoff debts strategy extraMonthly)"
proof -
  let ?srt = "sort_debts strategy debts"
  have "order_state (init_state ?srt)"
    by (simp add: order_state_def init_state_def)
  then have "order_state (payoff_loop ?srt extraMonthly (init_state ?srt))"
    by (rule payoff_loop_invariant) (rule payoff_month_order)
  then show ?thesis
    unfolding payoff_order_ok_def calculatePayoff_sel
    by (intro conjI order_state_result)
qed

lemma example_order:
  "r_debtPayoffOrder (calculatePayoff [dA, dB, dC] Snowball 5000)
     = [\<lparr>p_id = ''a'', p_name = ''A'', p_payoffMonth = 1\<rparr>,
        \<lparr>p_id = ''b'', p_name = ''B'', p_payoffMonth = 2\<rparr>,
        \<lparr>p_id = ''c'', p_name = ''C'', p_payoffMonth = 3\<rparr>]"
  by code_simp

lemma example_payoff_order_ok:
  "payoff_order_ok (calculatePayoff [dA, dB, dC] Snowball 5000)"
  by code_simp

section \<open>One month as a single pass, and the effect of the extra payment\<close>

lemma second_pass_no_budget: "X \<le> 0 \<Longrightarrow> second_pass srt bal X ms = ms"
  by (induction srt) simp_all

lemma second_pass_paid: 
  "\<forall>d \<in> set srt. at_most_cent bal (d_id d) \<Longrightarrow> second_pass srt bal X ms = ms"
  by (induction srt) simp_all

lemma e_id_first_pass: "e_id (first_pass bal d) = d_id d"
  by (simp add: first_pass_def Let_def)

lemma second_pass_head:
  "second_pass srt bal X (map (first_pass bal) (remaining_debts srt bal))
     = (case remaining_debts srt bal of
          [] \<Rightarrow> []
        | t # rest \<Rightarrow> with_extra X (first_pass bal t) # map (first_pass bal) rest)"
proof (cases "X \<le> 0")
  case True
  then show ?thesis
    by (simp add: second_pass_no_budget with_extra_def split: list.splits)
next
  case False
  have "second_pass ds bal X (map (first_pass bal) (filter (\<lambda>d. above_cent bal (d_id d)) ds))
     = (case filter (\<lambda>d. above_cent bal (d_id d)) ds of
          [] \<Rightarrow> []
        | t # rest \<Rightarrow> with_extra X (first_pass bal t) # map (first_pass bal) rest)" for ds
  proof (induction ds)
    case Nil
    show ?case by simp
  next
    case (Cons d ds)
    show ?case
    proof (cases "above_cent bal (d_id d)")
      case True
      then have "\<not> at_most_cent bal (d_id d)"
        by (simp add: above_cent_def at_most_cent_def)
      then show ?thesis
        using True False by (simp add: e_id_first_pass with_extra_def Let_def)
    next
      case paid: False
      have none: "find (\<lambda>m. e_id m = d_id d)
          (map (first_pass bal) (filter (\<lambda>d. above_cent bal (d_id d)) ds)) = None"
        if "\<not> at_most_cent bal (d_id d)"
      proof -
        have "d_id d = proto_key"
          using paid that by (auto simp: above_cent_def at_most_cent_def)
        then show ?thesis
          by (auto simp: find_None_iff e_id_first_pass above_cent_def)
      qed
      show ?thesis
      proof (cases "at_most_cent bal (d_id d)")
        case True
        then show ?thesis using paid Cons by simp
      next
        case False
        then show ?thesis using paid Cons none by simp
      qed
    qed
  qed
  then show ?thesis
    by (simp only: remaining_debts_def)
qed

lemma apply_bal_Cons: "apply_bal new (e # es) = apply_bal (new(e_id e := new_balance e)) es"
  by (simp add: apply_bal_def)

lemma e_id_with_extra: "e_id (with_extra X e) = e_id e"
  by (simp add: with_extra_def Let_def)

lemma e_interest_with_extra: "e_interest (with_extra X e) = e_interest e"
  by (simp add: with_extra_def Let_def)

lemma step_bal_closed:
  "apply_bal new (map (first_pass bal) (filter (\<lambda>d. above_cent bal (d_id d)) ds))
     = step_bal ds bal X False new"
  by (induction ds arbitrary: new) (simp_all add: apply_bal_Cons e_id_first_pass, simp add: apply_bal_def)

lemma step_bal_open:
  "apply_bal new (case filter (\<lambda>d. above_cent bal (d_id d)) ds of
                    [] \<Rightarrow> []
                  | t # rest \<Rightarrow> with_extra X (first_pass bal t) # map (first_pass bal) rest)
     = step_bal ds bal X True new"
proof (induction ds arbitrary: new)
  case Nil
  show ?case by (simp add: apply_bal_def)
next
  case (Cons d ds)
  show ?case
  proof (cases "above_cent bal (d_id d)")
    case True
    then show ?thesis
      using step_bal_closed [where new = "new(d_id d := new_balance (with_extra X (first_pass bal d)))"
          and bal = bal and ds = ds and X = X]
      by (simp add: apply_bal_Cons e_id_with_extra e_id_first_pass)
  next
    case False
    then show ?thesis using Cons by simp
  qed
qed

lemma month_step_bal:
  "apply_bal bal (month_entries srt x bal)
     = step_bal srt bal (x + freedMinimums srt bal) True bal"
  unfolding month_entries_def second_pass_head
  using step_bal_open [where new = bal and bal = bal and ds = srt
      and X = "x + freedMinimums srt bal"]
  by (simp only: remaining_debts_def)

lemma new_balance_first_pass:
  "new_balance (first_pass bal d) = plain_balance d (bal (d_id d))"
  by (simp add: new_balance_def first_pass_def Let_def plain_balance_def grown_def)

lemma new_balance_with_extra:
  "new_balance (with_extra X (first_pass bal d))
     = max 0 (plain_balance d (bal (d_id d)) - max 0 X)"
proof (cases "X \<le> 0")
  case True
  then have "max 0 X = 0" by simp
  moreover have "0 \<le> plain_balance d (bal (d_id d))" by (simp add: plain_balance_def)
  ultimately show ?thesis
    using True new_balance_first_pass [of bal d] by (simp add: with_extra_def)
next
  case False
  define y where "y = grown d (bal (d_id d))"
  define m where "m = d_minimum d"
  have fp: "e_balance (first_pass bal d) + e_interest (first_pass bal d) = y"
    "e_payment (first_pass bal d) = min m y"
    by (simp_all add: first_pass_def Let_def y_def m_def grown_def)
  have pos: "min X (y - min m y + 0.01) > 0"
    using False by (simp add: min_def)
  have "new_balance (with_extra X (first_pass bal d))
      = max 0 (y - (min m y + min X (y - min m y + 0.01)))"
    using False pos fp by (simp add: with_extra_def Let_def new_balance_def)
  also have "\<dots> = max 0 (max 0 (y - m) - max 0 X)"
    using False by (simp add: min_def max_def)
  finally show ?thesis
    by (simp add: plain_balance_def y_def m_def)
qed

lemma month_interest:
  "sum_list (map e_interest (month_entries srt x bal))
     = sum_list (map (\<lambda>d. bal (d_id d) * (d_rate d / 100 / 12)) (remaining_debts srt bal))"
proof -
  have fp: "e_interest (first_pass bal d) = bal (d_id d) * (d_rate d / 100 / 12)" for d
    by (simp add: first_pass_def Let_def)
  show ?thesis
    unfolding month_entries_def second_pass_head
    by (cases "remaining_debts srt bal") (simp_all add: e_interest_with_extra fp o_def)
qed

lemma eff_nonneg: "0 \<le> eff b"
  by (simp add: eff_def)

lemma eff_mono: "a \<le> b \<Longrightarrow> eff a \<le> eff b"
  by (simp add: eff_def)

lemma eff_paid: "b \<le> 0.01 \<Longrightarrow> eff b = 0"
  by (simp add: eff_def)

lemma bal_le_remaining:
  assumes "bal_le b2 b1" "b2 k > 0.01"
  shows "b2 k \<le> b1 k" "b1 k > 0.01"
proof -
  have "eff (b2 k) \<le> eff (b1 k)" using assms(1) by (simp add: bal_le_def)
  then show "b2 k \<le> b1 k" "b1 k > 0.01"
    using assms(2) by (auto simp: eff_def split: if_splits)
qed

lemma bal_le_above:
  assumes "bal_le b2 b1" "above_cent b2 k"
  shows "b2 k \<le> b1 k" "above_cent b1 k"
  using bal_le_remaining [OF assms(1), of k] assms(2) by (simp_all add: above_cent_def)

lemma bal_le_at_most:
  assumes "bal_le b2 b1" "at_most_cent b1 k"
  shows "at_most_cent b2 k"
  using bal_le_remaining(2) [OF assms(1), of k] assms(2)
  by (auto simp: at_most_cent_def not_less [symmetric])

lemma bal_le_refl: "bal_le b b"
  by (simp add: bal_le_def)

lemma plain_balance_nonneg: "0 \<le> plain_balance d b"
  by (simp add: plain_balance_def)

lemma plain_balance_mono:
  assumes "valid_debt d" "b2 \<le> b1"
  shows "plain_balance d b2 \<le> plain_balance d b1"
proof -
  have r: "0 \<le> d_rate d / 100 / 12" using assms(1) by (simp add: valid_debt_def)
  have "b2 * (d_rate d / 100 / 12) \<le> b1 * (d_rate d / 100 / 12)"
    using assms(2) r by (rule mult_right_mono)
  then have "grown d b2 \<le> grown d b1"
    using assms(2) by (simp add: grown_def)
  then show ?thesis by (simp add: plain_balance_def)
qed

lemma freedMinimums_sum:
  "freedMinimums srt bal
     = sum_list (map d_minimum (filter (\<lambda>d. at_most_cent bal (d_id d)) srt))"
  by (simp add: freedMinimums_def foldl_add_sum_list)

lemma freedMinimums_mono:
  assumes "list_all valid_debt srt" "bal_le b2 b1"
  shows "freedMinimums srt b1 \<le> freedMinimums srt b2"
  using assms(1)
proof (induction srt)
  case Nil
  show ?case by (simp add: freedMinimums_sum)
next
  case (Cons d ds)
  have m: "0 \<le> d_minimum d" using Cons.prems by (simp add: valid_debt_def)
  have IH: "freedMinimums ds b1 \<le> freedMinimums ds b2" using Cons by simp
  have imp: "at_most_cent b1 (d_id d) \<Longrightarrow> at_most_cent b2 (d_id d)"
    using assms(2) by (rule bal_le_at_most)
  show ?case
    using m IH imp by (auto simp: freedMinimums_sum)
qed

lemma month_interest_nonneg:
  assumes "list_all valid_debt srt"
  shows "0 \<le> month_interest_of srt bal"
  unfolding month_interest_of_def
proof (rule sum_list_nonneg)
  fix x
  assume "x \<in> set (map (\<lambda>d. bal (d_id d) * (d_rate d / 100 / 12)) (remaining_debts srt bal))"
  then obtain d where d: "d \<in> set srt" "bal (d_id d) > 0.01"
    "x = bal (d_id d) * (d_rate d / 100 / 12)"
    by (auto simp: remaining_debts_def above_cent_def)
  have "0 \<le> d_rate d / 100 / 12"
    using assms d(1) by (simp add: list_all_iff valid_debt_def)
  moreover have "0 \<le> bal (d_id d)" using d(2) by simp
  ultimately show "0 \<le> x" unfolding d(3) by (rule mult_nonneg_nonneg [rotated])
qed

lemma month_interest_mono:
  assumes "list_all valid_debt srt" "bal_le b2 b1"
  shows "month_interest_of srt b2 \<le> month_interest_of srt b1"
  using assms(1)
proof (induction srt)
  case Nil
  show ?case by (simp add: month_interest_of_def remaining_debts_def)
next
  case (Cons d ds)
  have r: "0 \<le> d_rate d / 100 / 12" using Cons.prems by (simp add: valid_debt_def)
  have IH: "month_interest_of ds b2 \<le> month_interest_of ds b1" using Cons by simp
  show ?case
  proof (cases "above_cent b2 (d_id d)")
    case True
    have le: "b2 (d_id d) \<le> b1 (d_id d)" and rem: "above_cent b1 (d_id d)"
      using bal_le_above [OF assms(2) True] by simp_all
    have "b2 (d_id d) * (d_rate d / 100 / 12) \<le> b1 (d_id d) * (d_rate d / 100 / 12)"
      using le r by (rule mult_right_mono)
    then show ?thesis
      using True rem IH by (simp add: month_interest_of_def remaining_debts_def)
  next
    case False
    show ?thesis
    proof (cases "above_cent b1 (d_id d)")
      case True
      then have "0 \<le> b1 (d_id d) * (d_rate d / 100 / 12)"
        using r by (simp add: above_cent_def)
      then show ?thesis
        using False True IH by (simp add: month_interest_of_def remaining_debts_def)
    next
      case b1: False
      then show ?thesis
        using False IH by (simp add: month_interest_of_def remaining_debts_def)
    qed
  qed
qed

lemma step_bal_mono:
  assumes "list_all valid_debt ds" "bal_le b2 b1" "X1 \<le> X2" "o1 \<longrightarrow> o2"
    and "\<forall>k. eff (n2 k) \<le> eff (n1 k)"
    and "\<forall>k. b2 k \<le> 0.01 \<longrightarrow> n2 k \<le> 0.01"
  shows "eff (step_bal ds b2 X2 o2 n2 k) \<le> eff (step_bal ds b1 X1 o1 n1 k)"
  using assms(1,4,5,6)
proof (induction ds arbitrary: o1 o2 n1 n2)
  case Nil
  then show ?case by simp
next
  case (Cons d ds)
  have v: "valid_debt d" and vs: "list_all valid_debt ds" using Cons.prems(1) by simp_all
  define k0 where "k0 = d_id d"
  define v1 where
    "v1 = new_balance (if o1 then with_extra X1 (first_pass b1 d) else first_pass b1 d)"
  define v2 where
    "v2 = new_balance (if o2 then with_extra X2 (first_pass b2 d) else first_pass b2 d)"
  show ?case
  proof (cases "k0 = proto_key")
  case proto: True
  have "step_bal (d # ds) b1 X1 o1 n1 = step_bal ds b1 X1 o1 n1"
    "step_bal (d # ds) b2 X2 o2 n2 = step_bal ds b2 X2 o2 n2"
    using proto by (simp_all add: above_cent_def k0_def)
  then show ?thesis
    using Cons.IH [OF vs Cons.prems(2) Cons.prems(3) Cons.prems(4)] by simp
  next
  case np: False
  have ab: "above_cent b k0 = (b k0 > 0.01)" for b
    using np by (simp add: above_cent_def)
  have unfold1: "step_bal (d # ds) b1 X1 o1 n1
      = (if b1 k0 > 0.01 then step_bal ds b1 X1 False (n1(k0 := v1))
         else step_bal ds b1 X1 o1 n1)"
    by (simp only: step_bal.simps k0_def [symmetric] v1_def [symmetric] ab)
  have unfold2: "step_bal (d # ds) b2 X2 o2 n2
      = (if b2 k0 > 0.01 then step_bal ds b2 X2 False (n2(k0 := v2))
         else step_bal ds b2 X2 o2 n2)"
    by (simp only: step_bal.simps k0_def [symmetric] v2_def [symmetric] ab)
  show ?thesis
  proof (cases "b2 k0 > 0.01")
    case True
    have le: "b2 k0 \<le> b1 k0" and rem1: "b1 k0 > 0.01"
      using bal_le_remaining [OF assms(2) True] by simp_all
    have p: "plain_balance d (b2 k0) \<le> plain_balance d (b1 k0)"
      using v le by (rule plain_balance_mono)
    have p0: "0 \<le> plain_balance d (b2 k0)" by (rule plain_balance_nonneg)
    have "v2 \<le> v1"
    proof (cases o1)
      case True
      then have "o2" using Cons.prems(2) by simp
      then show ?thesis
        using True p assms(3) by (simp add: v1_def v2_def new_balance_with_extra k0_def)
    next
      case False
      then show ?thesis
        using p p0
        by (cases o2)
           (simp_all add: v1_def v2_def new_balance_with_extra new_balance_first_pass k0_def)
    qed
    then have ev: "eff v2 \<le> eff v1" by (rule eff_mono)
    have n: "\<forall>k. eff ((n2(k0 := v2)) k) \<le> eff ((n1(k0 := v1)) k)"
      using Cons.prems(3) ev by simp
    have inv: "\<forall>k. b2 k \<le> 0.01 \<longrightarrow> (n2(k0 := v2)) k \<le> 0.01"
      using Cons.prems(4) True by simp
    have "eff (step_bal ds b2 X2 False (n2(k0 := v2)) k)
        \<le> eff (step_bal ds b1 X1 False (n1(k0 := v1)) k)"
      by (rule Cons.IH [OF vs _ n inv]) simp
    then show ?thesis unfolding unfold1 unfold2 using True rem1 by simp
  next
    case False
    show ?thesis
    proof (cases "b1 k0 > 0.01")
      case True
      have "n2 k0 \<le> 0.01" using Cons.prems(4) False by simp
      then have "eff (n2 k0) = 0" by (rule eff_paid)
      then have n: "\<forall>k. eff (n2 k) \<le> eff ((n1(k0 := v1)) k)"
        using Cons.prems(3) by (simp add: eff_nonneg)
      have "eff (step_bal ds b2 X2 o2 n2 k)
          \<le> eff (step_bal ds b1 X1 False (n1(k0 := v1)) k)"
        by (rule Cons.IH [OF vs _ n Cons.prems(4)]) simp
      then show ?thesis unfolding unfold1 unfold2 using True False by simp
    next
      case b1: False
      have "eff (step_bal ds b2 X2 o2 n2 k) \<le> eff (step_bal ds b1 X1 o1 n1 k)"
        by (rule Cons.IH [OF vs Cons.prems(2) Cons.prems(3) Cons.prems(4)])
      then show ?thesis unfolding unfold1 unfold2 using False b1 by simp
    qed
  qed
  qed
qed

lemma payoff_month_bal_le:
  assumes "list_all valid_debt srt" "bal_le (s_balances st2) (s_balances st1)" "e1 \<le> e2"
  shows "bal_le (s_balances (payoff_month srt e2 st2)) (s_balances (payoff_month srt e1 st1))"
proof -
  have X: "e1 + freedMinimums srt (s_balances st1) \<le> e2 + freedMinimums srt (s_balances st2)"
    using freedMinimums_mono [OF assms(1,2)] assms(3) by simp
  have "eff (step_bal srt (s_balances st2) (e2 + freedMinimums srt (s_balances st2)) True
              (s_balances st2) k)
      \<le> eff (step_bal srt (s_balances st1) (e1 + freedMinimums srt (s_balances st1)) True
              (s_balances st1) k)" for k
    by (rule step_bal_mono [OF assms(1,2) X]) (use assms(2) in \<open>simp_all add: bal_le_def\<close>)
  then show ?thesis
    by (simp add: bal_le_def payoff_month_sel month_step_bal)
qed

lemma payoff_month_interest:
  "s_totalInterestPaid (payoff_month srt x st)
     = s_totalInterestPaid st + month_interest_of srt (s_balances st)"
  by (simp add: payoff_month_sel month_interest month_interest_of_def)

lemma payoff_loop_grows:
  assumes "list_all valid_debt srt"
  shows "s_month st \<le> s_month (payoff_loop srt x st)
       \<and> s_totalInterestPaid st \<le> s_totalInterestPaid (payoff_loop srt x st)"
proof (rule payoff_loop_invariant
    [where I = "\<lambda>s. s_month st \<le> s_month s \<and> s_totalInterestPaid st \<le> s_totalInterestPaid s"])
  show "s_month st \<le> s_month st \<and> s_totalInterestPaid st \<le> s_totalInterestPaid st" by simp
next
  fix s :: LoopState
  assume "s_month st \<le> s_month s \<and> s_totalInterestPaid st \<le> s_totalInterestPaid s"
  then show "s_month st \<le> s_month (payoff_month srt x s)
       \<and> s_totalInterestPaid st \<le> s_totalInterestPaid (payoff_month srt x s)"
    using month_interest_nonneg [OF assms, of "s_balances s"]
    by (simp add: payoff_month_interest payoff_month_sel(2))
qed

lemma remaining_bal_le:
  assumes "bal_le b2 b1" "remaining_debts srt b1 = []"
  shows "remaining_debts srt b2 = []"
proof -
  have "\<forall>d \<in> set srt. \<not> above_cent b2 (d_id d)"
  proof (intro ballI notI)
    fix d
    assume that: "d \<in> set srt" and "above_cent b2 (d_id d)"
    then have "above_cent b1 (d_id d)"
      using bal_le_above(2) [OF assms(1)] by simp
    then have "d \<in> set (remaining_debts srt b1)" using that by (simp add: remaining_debts_def)
    then show False using assms(2) by simp
  qed
  then show ?thesis unfolding remaining_debts_def filter_empty_conv by blast
qed

lemma payoff_loop_mono:
  assumes "list_all valid_debt srt" "e1 \<le> e2"
    and "bal_le (s_balances st2) (s_balances st1)"
    and "s_month st2 = s_month st1"
    and "s_totalInterestPaid st2 \<le> s_totalInterestPaid st1"
  shows "s_month (payoff_loop srt e2 st2) \<le> s_month (payoff_loop srt e1 st1)
       \<and> s_totalInterestPaid (payoff_loop srt e2 st2)
           \<le> s_totalInterestPaid (payoff_loop srt e1 st1)"
  using assms
proof (induction srt e1 st1 arbitrary: st2 rule: payoff_loop.induct)
  case (1 srt e1 st1)
  note v = "1.prems"(1) and e = "1.prems"(2) and b = "1.prems"(3) and m = "1.prems"(4)
    and i = "1.prems"(5)
  show ?case
  proof (cases "s_month st1 < maxMonths")
    case False
    then have "payoff_loop srt e1 st1 = st1" "payoff_loop srt e2 st2 = st2"
      using m by (simp_all add: payoff_loop.simps)
    then show ?thesis using m i by simp
  next
    case True
    show ?thesis
    proof (cases "remaining_debts srt (s_balances st2) = []")
      case stop2: True
      have l2: "payoff_loop srt e2 st2 = st2"
        using stop2 by (simp add: payoff_loop.simps)
      show ?thesis
        unfolding l2 using payoff_loop_grows [OF v, of st1 e1] m i by simp
    next
      case go2: False
      then have go1: "remaining_debts srt (s_balances st1) \<noteq> []"
        using remaining_bal_le [OF b] by blast
      have l1: "payoff_loop srt e1 st1 = payoff_loop srt e1 (payoff_month srt e1 st1)"
        using True go1 by (subst payoff_loop.simps) simp
      have l2: "payoff_loop srt e2 st2 = payoff_loop srt e2 (payoff_month srt e2 st2)"
        using True go2 m by (subst payoff_loop.simps) simp
      have b': "bal_le (s_balances (payoff_month srt e2 st2)) (s_balances (payoff_month srt e1 st1))"
        using v b e by (rule payoff_month_bal_le)
      have m': "s_month (payoff_month srt e2 st2) = s_month (payoff_month srt e1 st1)"
        using m by (simp add: payoff_month_sel(2))
      have i': "s_totalInterestPaid (payoff_month srt e2 st2)
          \<le> s_totalInterestPaid (payoff_month srt e1 st1)"
        using i month_interest_mono [OF v b] by (simp add: payoff_month_interest)
      show ?thesis
        unfolding l1 l2 by (rule "1.IH" [OF True go1 v e b' m' i'])
    qed
  qed
qed

text \<open>
  C3: for valid debts and a fixed strategy, a larger extra payment never gives more
  total interest nor more months: if \<open>e1 \<le> e2\<close> then the result for \<open>e2\<close> has
  \<open>totalInterest\<close> and \<open>months\<close> at most those of the result for \<open>e1\<close>.
\<close>

theorem calculatePayoff_extra_monotone:
  assumes "valid_debts debts" "e1 \<le> e2"
  shows "r_totalInterest (calculatePayoff debts strategy e2)
           \<le> r_totalInterest (calculatePayoff debts strategy e1)
       \<and> r_months (calculatePayoff debts strategy e2)
           \<le> r_months (calculatePayoff debts strategy e1)"
proof -
  let ?srt = "sort_debts strategy debts"
  have v: "list_all valid_debt ?srt" using assms(1) by (rule valid_sort_debts)
  have "s_month (payoff_loop ?srt e2 (init_state ?srt)) \<le> s_month (payoff_loop ?srt e1 (init_state ?srt))
       \<and> s_totalInterestPaid (payoff_loop ?srt e2 (init_state ?srt))
           \<le> s_totalInterestPaid (payoff_loop ?srt e1 (init_state ?srt))"
    by (rule payoff_loop_mono [OF v assms(2) bal_le_refl]) simp_all
  then show ?thesis by (simp add: calculatePayoff_sel)
qed

lemma example_months:
  "r_months (calculatePayoff [dX, dY, dZ] Avalanche 0) = 3"
  "r_months (calculatePayoff [dX, dY, dZ] Snowball 0) = 4"
  by code_simp+

lemma payoff_loop_months_cong:
  assumes "\<And>bal. (remaining_debts s1 bal = []) = (remaining_debts s2 bal = [])"
    and "\<And>bal. apply_bal bal (month_entries s1 x bal) = apply_bal bal (month_entries s2 x bal)"
    and "s_balances st1 = s_balances st2" "s_month st1 = s_month st2"
  shows "s_month (payoff_loop s1 x st1) = s_month (payoff_loop s2 x st2)"
  using assms
proof (induction s1 x st1 arbitrary: st2 rule: payoff_loop.induct)
  case (1 s1 x st1)
  note rem = "1.prems"(1) and step = "1.prems"(2) and b = "1.prems"(3) and m = "1.prems"(4)
  show ?case
  proof (cases "s_month st1 < maxMonths \<and> remaining_debts s1 (s_balances st1) \<noteq> []")
    case False
    then have "payoff_loop s1 x st1 = st1"
      by (subst payoff_loop.simps) auto
    moreover have "payoff_loop s2 x st2 = st2"
      using False rem [of "s_balances st1"] b m by (subst payoff_loop.simps) auto
    ultimately show ?thesis using m by simp
  next
    case True
    have l1: "payoff_loop s1 x st1 = payoff_loop s1 x (payoff_month s1 x st1)"
      using True by (subst payoff_loop.simps) simp
    have l2: "payoff_loop s2 x st2 = payoff_loop s2 x (payoff_month s2 x st2)"
      using True rem [of "s_balances st1"] b m by (subst payoff_loop.simps) simp
    have b': "s_balances (payoff_month s1 x st1) = s_balances (payoff_month s2 x st2)"
      using step [of "s_balances st1"] b by (simp add: payoff_month_sel(1))
    have m': "s_month (payoff_month s1 x st1) = s_month (payoff_month s2 x st2)"
      using m by (simp add: payoff_month_sel(2))
    show ?thesis
      unfolding l1 l2 using True by (intro "1.IH" rem step b' m') simp_all
  qed
qed

lemma with_extra_zero: "with_extra 0 e = e"
  by (simp add: with_extra_def)

lemma swap_step:
  assumes "d_id a \<noteq> d_id b"
  shows "apply_bal bal (month_entries [a, b] 0 bal) = apply_bal bal (month_entries [b, a] 0 bal)"
proof -
  have f: "freedMinimums [a, b] bal = freedMinimums [b, a] bal"
    by (simp add: freedMinimums_sum)
  show ?thesis
  proof (cases "above_cent bal (d_id a) \<and> above_cent bal (d_id b)")
    case True
    then have "freedMinimums [a, b] bal = 0" "freedMinimums [b, a] bal = 0"
      by (simp_all add: freedMinimums_sum above_cent_def at_most_cent_def)
    then show ?thesis
      using True assms by (simp add: month_step_bal with_extra_zero fun_upd_twist)
  next
    case False
    then show ?thesis
      using assms by (auto simp: month_step_bal f)
  qed
qed

lemma swap_months:
  assumes "d_id a \<noteq> d_id b"
  shows "s_month (payoff_loop [a, b] 0 (init_state [a, b]))
       = s_month (payoff_loop [b, a] 0 (init_state [b, a]))"
proof (rule payoff_loop_months_cong)
  show "(remaining_debts [a, b] bal = []) = (remaining_debts [b, a] bal = [])" for bal
    by (auto simp: remaining_debts_def)
  show "apply_bal bal (month_entries [a, b] 0 bal) = apply_bal bal (month_entries [b, a] 0 bal)"
    for bal using assms by (rule swap_step)
  show "s_balances (init_state [a, b]) = s_balances (init_state [b, a])"
    using assms by (auto simp: init_state_def set_balance_def fun_upd_twist)
  show "s_month (init_state [a, b]) = s_month (init_state [b, a])"
    by (simp add: init_state_def)
qed

lemma sort_debts_two:
  "sort_debts strategy [a, b] = [a, b] \<or> sort_debts strategy [a, b] = [b, a]"
  by (cases strategy) (simp_all add: sort_debts_def)

lemma sort_debts_small:
  "sort_debts strategy [] = []" "sort_debts strategy [d] = [d]"
  by (cases strategy; simp add: sort_debts_def)+

lemma two_debts_months:
  assumes "length debts \<le> 2" "distinct (map d_id debts)"
  shows "r_months (calculatePayoff debts Avalanche 0)
       = r_months (calculatePayoff debts Snowball 0)"
proof -
  consider "debts = []" | d where "debts = [d]" | a b where "debts = [a, b]"
    using assms(1) by (cases debts rule: list.exhaust; simp)
       (metis Suc_length_conv length_0_conv le_Suc_eq le_zero_eq list.exhaust numeral_2_eq_2 Suc_le_mono)
  then show ?thesis
  proof cases
    case 1
    then show ?thesis by (simp add: calculatePayoff_sel sort_debts_small)
  next
    case 2
    then show ?thesis by (simp add: calculatePayoff_sel sort_debts_small)
  next
    case 3
    then have ne: "d_id a \<noteq> d_id b" using assms(2) by simp
    show ?thesis
      unfolding 3 calculatePayoff_sel
      using sort_debts_two [of Avalanche a b] sort_debts_two [of Snowball a b]
        swap_months [OF ne] swap_months [OF ne [symmetric]]
      by auto
  qed
qed

text \<open>
  C4, as amended: for at most two debts with distinct ids and no extra payment, the
  avalanche and the snowball strategy need the same number of months, and
  \<open>compareStrategies\<close> reports no months saved.
\<close>

theorem two_debts_same_months:
  assumes "length debts \<le> 2" "distinct (map d_id debts)"
  shows "r_months (calculatePayoff debts Avalanche 0)
           = r_months (calculatePayoff debts Snowball 0)
       \<and> monthsSaved (compareStrategies debts 0) = 0"
  using two_debts_months [OF assms] by (simp add: compareStrategies_def Let_def)

lemma example_valid_xyz: "valid_debts [dX, dY, dZ]"
  by (simp add: valid_debts_def valid_debt_def dX_def dY_def dZ_def)

text \<open>
  With three debts the strategies can differ without any extra payment: once \<open>dZ\<close>
  is paid, its minimum of 100 is rolled over to the first unpaid debt of the order.
  Avalanche (all rates equal, so the input order) gives it to \<open>dX\<close> and finishes in
  3 months; snowball gives it to \<open>dY\<close>, which needs only 0.01 of it, drops the rest
  and finishes in 4 months.
\<close>

theorem strategies_differ_counterexample:
  "valid_debts [dX, dY, dZ]
   \<and> r_months (calculatePayoff [dX, dY, dZ] Avalanche 0) = 3
   \<and> r_months (calculatePayoff [dX, dY, dZ] Snowball 0) = 4
   \<and> monthsSaved (compareStrategies [dX, dY, dZ] 0) = 1"
  using example_valid_xyz example_months by (simp add: compareStrategies_def Let_def)

lemma example_two_orders:
  "sort_debts Avalanche [dX, dY] = [dX, dY]" "sort_debts Snowball [dX, dY] = [dY, dX]"
  by (simp_all add: sort_debts_def dX_def dY_def)

theorem two_debts_same_months_witness:
  "length [dX, dY] \<le> 2 \<and> distinct (map d_id [dX, dY])
   \<and> r_months (calculatePayoff [dX, dY] Avalanche 0)
       = r_months (calculatePayoff [dX, dY] Snowball 0)
   \<and> monthsSaved (compareStrategies [dX, dY] 0) = 0"
proof -
  have d: "distinct (map d_id [dX, dY])" by (simp add: dX_def dY_def)
  have l: "length [dX, dY] \<le> 2" by simp
  show ?thesis using d l two_debts_same_months [OF l d] by simp
qed

theorem calculatePayoff_extra_monotone_witness:
  "valid_debts [dA, dB, dC] \<and> (100::real) \<le> 5000
   \<and> r_totalInterest (calculatePayoff [dA, dB, dC] Snowball 5000)
       \<le> r_totalInterest (calculatePayoff [dA, dB, dC] Snowball 100)
   \<and> r_months (calculatePayoff [dA, dB, dC] Snowball 5000)
       \<le> r_months (calculatePayoff [dA, dB, dC] Snowball 100)"
proof -
  have e: "(100::real) \<le> 5000" by simp
  show ?thesis
    using example_valid calculatePayoff_extra_monotone [OF example_valid e, of Snowball] by simp
qed

end
